theory Spec2Isabelle
  imports Complex_Main
begin

section \<open>JavaScript strings and the regular expressions the code uses\<close>

text \<open>
  A JavaScript string is modelled as a \<open>string\<close> whose characters are the code units
  U+0000 to U+00FF. On that range the white space of \<open>String.prototype.trim\<close> and of the
  regular-expression class \<open>\s\<close> is TAB, LF, VT, FF, CR, SPACE and NBSP.
\<close>

definition js_ws :: "char \<Rightarrow> bool" where
  "js_ws c = (c \<in> set [CHR 0x09, CHR 0x0A, CHR 0x0B, CHR 0x0C, CHR 0x0D, CHR 0x20, CHR 0xA0])"

definition trim :: "string \<Rightarrow> string" where
  "trim s = rev (dropWhile js_ws (rev (dropWhile js_ws s)))"

definition startsWith :: "string \<Rightarrow> string \<Rightarrow> bool" where
  "startsWith s p = (take (length p) s = p)"

fun str_includes :: "string \<Rightarrow> string \<Rightarrow> bool" where
  "str_includes [] p = (p = [])"
| "str_includes (c # cs) p = (startsWith (c # cs) p \<or> str_includes cs p)"

text \<open>
  Upper and lower case on this range: the letters A to Z and the Latin-1 letters U+00C0 to
  U+00DE (without the multiplication sign U+00D7), each paired with the character 32
  places above it. \<open>toUpperCase\<close> of U+00B5, U+00DF and U+00FF leaves the range or
  the length, and the canonicalisation of \<open>/i\<close> keeps those characters as they are.
\<close>

definition case_pairs :: "(char \<times> char) list" where
  "case_pairs =
     [(CHR ''A'', CHR ''a''), (CHR ''B'', CHR ''b''), (CHR ''C'', CHR ''c''), (CHR ''D'', CHR ''d''),
      (CHR ''E'', CHR ''e''), (CHR ''F'', CHR ''f''), (CHR ''G'', CHR ''g''), (CHR ''H'', CHR ''h''),
      (CHR ''I'', CHR ''i''), (CHR ''J'', CHR ''j''), (CHR ''K'', CHR ''k''), (CHR ''L'', CHR ''l''),
      (CHR ''M'', CHR ''m''), (CHR ''N'', CHR ''n''), (CHR ''O'', CHR ''o''), (CHR ''P'', CHR ''p''),
      (CHR ''Q'', CHR ''q''), (CHR ''R'', CHR ''r''), (CHR ''S'', CHR ''s''), (CHR ''T'', CHR ''t''),
      (CHR ''U'', CHR ''u''), (CHR ''V'', CHR ''v''), (CHR ''W'', CHR ''w''), (CHR ''X'', CHR ''x''),
      (CHR ''Y'', CHR ''y''), (CHR ''Z'', CHR ''z''), (CHR 0xC0, CHR 0xE0), (CHR 0xC1, CHR 0xE1),
      (CHR 0xC2, CHR 0xE2), (CHR 0xC3, CHR 0xE3), (CHR 0xC4, CHR 0xE4), (CHR 0xC5, CHR 0xE5),
      (CHR 0xC6, CHR 0xE6), (CHR 0xC7, CHR 0xE7), (CHR 0xC8, CHR 0xE8), (CHR 0xC9, CHR 0xE9),
      (CHR 0xCA, CHR 0xEA), (CHR 0xCB, CHR 0xEB), (CHR 0xCC, CHR 0xEC), (CHR 0xCD, CHR 0xED),
      (CHR 0xCE, CHR 0xEE), (CHR 0xCF, CHR 0xEF), (CHR 0xD0, CHR 0xF0), (CHR 0xD1, CHR 0xF1),
      (CHR 0xD2, CHR 0xF2), (CHR 0xD3, CHR 0xF3), (CHR 0xD4, CHR 0xF4), (CHR 0xD5, CHR 0xF5),
      (CHR 0xD6, CHR 0xF6), (CHR 0xD8, CHR 0xF8), (CHR 0xD9, CHR 0xF9), (CHR 0xDA, CHR 0xFA),
      (CHR 0xDB, CHR 0xFB), (CHR 0xDC, CHR 0xFC), (CHR 0xDD, CHR 0xFD), (CHR 0xDE, CHR 0xFE)]"

definition toLowerCase_char :: "char \<Rightarrow> char" where
  "toLowerCase_char c = (case map_of case_pairs c of Some l \<Rightarrow> l | None \<Rightarrow> c)"

definition toLowerCase :: "string \<Rightarrow> string" where
  "toLowerCase s = map toLowerCase_char s"

definition canonicalize :: "char \<Rightarrow> char" where
  "canonicalize c =
     (case map_of (map (\<lambda>(u, l). (l, u)) case_pairs) c of Some u \<Rightarrow> u | None \<Rightarrow> c)"

text \<open>
  The regular expressions of the source are alternations of sequences of four kinds of
  atom: a literal character, an optional literal character (\<open>c?\<close>, greedy), the class
  \<open>\s\<close> and the end anchor \<open>$\<close> (no \<open>m\<close> flag: end of input only). \<open>match_here\<close>
  gives the length of the match of one sequence at the start of the text, \<open>match_alt\<close>
  takes the first alternative that matches there, \<open>regex_exec\<close> the leftmost position
  where one does. The flag \<open>ic\<close> is \<open>/i\<close>: characters are compared after
  canonicalisation to upper case.
\<close>

datatype atom = Lit char | Opt char | Space | End

type_synonym regex = "atom list list"

definition char_matches :: "bool \<Rightarrow> char \<Rightarrow> char \<Rightarrow> bool" where
  "char_matches ic p c = (p = c \<or> (ic \<and> canonicalize p = canonicalize c))"

fun match_here :: "bool \<Rightarrow> atom list \<Rightarrow> string \<Rightarrow> nat option" where
  "match_here ic [] s = Some 0"
| "match_here ic (Lit p # as) [] = None"
| "match_here ic (Lit p # as) (c # cs) =
     (if char_matches ic p c then map_option Suc (match_here ic as cs) else None)"
| "match_here ic (Opt p # as) [] = match_here ic as []"
| "match_here ic (Opt p # as) (c # cs) =
     (if char_matches ic p c
      then (case match_here ic as cs of
              Some n \<Rightarrow> Some (Suc n)
            | None \<Rightarrow> match_here ic as (c # cs))
      else match_here ic as (c # cs))"
| "match_here ic (Space # as) [] = None"
| "match_here ic (Space # as) (c # cs) =
     (if js_ws c then map_option Suc (match_here ic as cs) else None)"
| "match_here ic (End # as) [] = match_here ic as []"
| "match_here ic (End # as) (c # cs) = None"

fun match_alt :: "bool \<Rightarrow> regex \<Rightarrow> string \<Rightarrow> nat option" where
  "match_alt ic [] s = None"
| "match_alt ic (a # alts) s =
     (case match_here ic a s of Some n \<Rightarrow> Some n | None \<Rightarrow> match_alt ic alts s)"

fun regex_exec :: "bool \<Rightarrow> regex \<Rightarrow> string \<Rightarrow> (nat \<times> nat) option" where
  "regex_exec ic re [] = map_option (\<lambda>n. (0, n)) (match_alt ic re [])"
| "regex_exec ic re (c # cs) =
     (case match_alt ic re (c # cs) of
        Some n \<Rightarrow> Some (0, n)
      | None \<Rightarrow> map_option (\<lambda>(i, n). (Suc i, n)) (regex_exec ic re cs))"

definition regex_test :: "bool \<Rightarrow> regex \<Rightarrow> string \<Rightarrow> bool" where
  "regex_test ic re s = (regex_exec ic re s \<noteq> None)"

definition replace_first :: "bool \<Rightarrow> regex \<Rightarrow> string \<Rightarrow> string" where
  "replace_first ic re s =
     (case regex_exec ic re s of
        None \<Rightarrow> s
      | Some (i, n) \<Rightarrow> take i s @ drop (i + n) s)"

definition lits :: "string \<Rightarrow> atom list" where
  "lits s = map Lit s"

section \<open>Currency detection (\<open>src/common/helpers.ts\<close>)\<close>

definition north_america_usd :: regex where
  "north_america_usd =
     [lits ''usa'', lits ''united states'', lits ''america'', lits ''us'' @ [Space],
      lits ''u.s.'', lits ''canada'', lits ''ca'' @ [Space]]"

definition north_america_cad :: regex where
  "north_america_cad = [lits ''canada'', lits ''canadian'', lits ''ca'' @ [Space]]"

definition patterns :: "(regex \<times> string) list" where
  "patterns =
     [(north_america_usd, ''USD''),
      (north_america_cad, ''CAD''),
      ([lits ''germany'', lits ''deutschland'', lits ''de'' @ [Space], lits ''berlin'',
        lits ''munich'', lits ''hamburg''], ''EUR''),
      ([lits ''france'', lits ''french'', lits ''fr'' @ [Space], lits ''paris'',
        lits ''lyon'', lits ''marseille''], ''EUR''),
      ([lits ''italy'', lits ''italian'', lits ''it'' @ [Space], lits ''rome'',
        lits ''milan'', lits ''napoli''], ''EUR''),
      ([lits ''spain'', lits ''spanish'', lits ''es'' @ [Space], lits ''madrid'',
        lits ''barcelona'', lits ''valencia''], ''EUR''),
      ([lits ''netherlands'', lits ''holland'', lits ''nl'' @ [Space],
        lits ''amsterdam''], ''EUR''),
      ([lits ''uk'', lits ''united kingdom'', lits ''britain'', lits ''gb'' @ [Space],
        lits ''london'', lits ''manchester''], ''GBP''),
      ([lits ''switzerland'', lits ''swiss'', lits ''ch'' @ [Space], lits ''zurich'',
        lits ''geneva''], ''CHF''),
      ([lits ''japan'', lits ''japanese'', lits ''jp'' @ [Space], lits ''tokyo'',
        lits ''osaka'', lits ''kyoto''], ''JPY''),
      ([lits ''china'', lits ''chinese'', lits ''cn'' @ [Space], lits ''beijing'',
        lits ''shanghai'', lits ''guangzhou''], ''CNY''),
      ([lits ''india'', lits ''indian'', lits ''in'' @ [Space], lits ''mumbai'',
        lits ''delhi'', lits ''bangalore''], ''INR''),
      ([lits ''korea'', lits ''korean'', lits ''kr'' @ [Space], lits ''seoul'',
        lits ''busan''], ''KRW''),
      ([lits ''singapore'', lits ''sg'' @ [Space]], ''SGD''),
      ([lits ''hong kong'', lits ''hk'' @ [Space]], ''HKD''),
      ([lits ''thailand'', lits ''thai'', lits ''th'' @ [Space], lits ''bangkok''], ''THB''),
      ([lits ''vietnam'', lits ''vietnamese'', lits ''vn'' @ [Space], lits ''hanoi'',
        lits ''ho chi minh''], ''VND''),
      ([lits ''indonesia'', lits ''indonesian'', lits ''id'' @ [Space],
        lits ''jakarta''], ''IDR''),
      ([lits ''malaysia'', lits ''malaysian'', lits ''my'' @ [Space],
        lits ''kuala lumpur''], ''MYR''),
      ([lits ''philippines'', lits ''filipino'', lits ''ph'' @ [Space],
        lits ''manila''], ''PHP''),
      ([lits ''australia'', lits ''australian'', lits ''au'' @ [Space], lits ''sydney'',
        lits ''melbourne''], ''AUD''),
      ([lits ''new zealand'', lits ''nz'' @ [Space], lits ''auckland''], ''NZD''),
      ([lits ''uae'', lits ''emirates'', lits ''dubai'', lits ''abu dhabi''], ''AED''),
      ([lits ''saudi'', lits ''arabia'', lits ''riyadh'', lits ''jeddah''], ''SAR''),
      ([lits ''israel'', lits ''israeli'', lits ''il'' @ [Space], lits ''tel aviv'',
        lits ''jerusalem''], ''ILS''),
      ([lits ''south africa'', lits ''za'' @ [Space], lits ''johannesburg'',
        lits ''cape town''], ''ZAR''),
      ([lits ''egypt'', lits ''egyptian'', lits ''eg'' @ [Space], lits ''cairo''], ''EGP''),
      ([lits ''mexico'', lits ''mexican'', lits ''mx'' @ [Space],
        lits ''mexico city''], ''MXN''),
      ([lits ''brazil'', lits ''brazilian'', lits ''br'' @ [Space], lits ''sao paulo'',
        lits ''rio''], ''BRL'')]"

text \<open>
  The \<open>for\<close> loop over \<open>patterns\<close>: the first pattern that matches decides. Every
  pattern of the list carries the flag \<open>/i\<close>, passed as \<open>ic\<close>.
\<close>

fun first_match :: "bool \<Rightarrow> (regex \<times> string) list \<Rightarrow> string \<Rightarrow> string option" where
  "first_match ic [] searchText = None"
| "first_match ic ((pattern, currency) # ps) searchText =
     (if regex_test ic pattern searchText then Some currency
      else first_match ic ps searchText)"

text \<open>
  An optional string argument is \<open>None\<close> for \<open>undefined\<close>; \<open>!address\<close> holds for
  \<open>undefined\<close> and for the empty string.
\<close>

definition falsy_str :: "string option \<Rightarrow> bool" where
  "falsy_str x = (x = None \<or> x = Some [])"

definition lower_or_empty :: "string option \<Rightarrow> string" where
  "lower_or_empty x = (case x of None \<Rightarrow> [] | Some a \<Rightarrow> toLowerCase a)"

definition detectCurrencyFromLocation :: "string option \<Rightarrow> string option \<Rightarrow> string" where
  "detectCurrencyFromLocation address language =
     (if falsy_str address \<and> falsy_str language then ''USD''
      else
        let addressLower = lower_or_empty address;
            langLower = lower_or_empty language;
            searchText = addressLower @ '' '' @ langLower
        in case first_match True patterns searchText of
             Some currency \<Rightarrow> currency
           | None \<Rightarrow> ''USD'')"

definition search_text :: "string option \<Rightarrow> string option \<Rightarrow> string" where
  "search_text address language = lower_or_empty address @ '' '' @ lower_or_empty language"

text \<open>
  Characters that \<open>toLowerCase\<close> changes; a text without them compares under \<open>/i\<close>
  as it does without the flag, when the pattern has none either.
\<close>

definition is_upper :: "char \<Rightarrow> bool" where
  "is_upper c = (c \<in> set (map fst case_pairs))"

definition atom_lower :: "atom \<Rightarrow> bool" where
  "atom_lower a = (case a of Lit p \<Rightarrow> \<not> is_upper p | Opt p \<Rightarrow> \<not> is_upper p | _ \<Rightarrow> True)"

section \<open>JavaScript values, exceptions and the outside world\<close>

text \<open>
  What \<open>JSON.parse\<close> returns and what a property read gives: a JavaScript value.
  \<open>JUndefined\<close> is the value of a property that is not there. An object is the list of
  its own properties, each name once.
\<close>

datatype jv =
    JUndefined
  | JNull
  | JBool bool
  | JNum rat
  | JStr string
  | JArr "jv list"
  | JObj "(string \<times> jv) list"

definition truthy :: "jv \<Rightarrow> bool" where
  "truthy v =
     (case v of
        JUndefined \<Rightarrow> False
      | JNull \<Rightarrow> False
      | JBool b \<Rightarrow> b
      | JNum n \<Rightarrow> n \<noteq> 0
      | JStr s \<Rightarrow> s \<noteq> []
      | JArr xs \<Rightarrow> True
      | JObj kvs \<Rightarrow> True)"

text \<open>\<open>a || b\<close>, \<open>typeof v === 'string'\<close> and \<open>Array.isArray(v)\<close>.\<close>

definition or_else :: "jv \<Rightarrow> jv \<Rightarrow> jv" where
  "or_else a b = (if truthy a then a else b)"

definition is_string :: "jv \<Rightarrow> bool" where
  "is_string v = (case v of JStr s \<Rightarrow> True | _ \<Rightarrow> False)"

definition isArray :: "jv \<Rightarrow> bool" where
  "isArray v = (case v of JArr xs \<Rightarrow> True | _ \<Rightarrow> False)"

text \<open>
  A thrown value is an \<open>Error\<close> object with its message (a \<open>TypeError\<close> is one), or a
  value that is not an \<open>Error\<close>, such as the event a failing \<open>FileReader\<close> rejects with.
  A call either returns or throws; an \<open>await\<close> of a rejected promise throws.
\<close>

datatype thrown = ErrorObj string | NonError

datatype 'a outcome = Returns 'a | Throws thrown

definition obind :: "'a outcome \<Rightarrow> ('a \<Rightarrow> 'b outcome) \<Rightarrow> 'b outcome" where
  "obind m f = (case m of Returns x \<Rightarrow> f x | Throws e \<Rightarrow> Throws e)"

text \<open>
  The two prompts stand for the texts of \<open>getReceiptValidationPrompt()\<close> and
  \<open>getPrompt()\<close>. A file has a name and a MIME type.
\<close>

datatype prompt = ValidationPrompt | ExtractionPrompt

record jsfile =
  name :: string
  type :: string

text \<open>
  The platform and the scripted outside world of one run:
  \<^item> \<open>readAsDataURL n file\<close>: the result of the \<open>n\<close>-th \<open>FileReader\<close> read, a data URL,
    or the rejection;
  \<^item> \<open>generateContent n prompt image\<close>: the \<open>n\<close>-th call of the model, which throws or
    answers; the answer is reduced to \<open>candidates?.[0]?.content?.parts?.[0]?.text\<close>,
    \<open>None\<close> when that chain is \<open>undefined\<close>;
  \<^item> \<open>JSON_parse\<close>: \<open>None\<close> when \<open>JSON.parse\<close> throws its \<open>SyntaxError\<close>;
  \<^item> \<open>null_read_message p\<close>: the message of the \<open>TypeError\<close> the engine throws when
    property \<open>p\<close> of \<open>null\<close> is read;
  \<^item> \<open>date_now\<close>, \<open>math_random\<close>, \<open>iso_string\<close>: the texts of \<open>Date.now()\<close>,
    \<open>Math.random().toString(36)\<close> and \<open>new Date().toISOString()\<close>.
\<close>

record env =
  readAsDataURL :: "nat \<Rightarrow> jsfile \<Rightarrow> string outcome"
  generateContent :: "nat \<Rightarrow> prompt \<Rightarrow> string option \<Rightarrow> string option outcome"
  JSON_parse :: "string \<Rightarrow> jv option"
  null_read_message :: "string \<Rightarrow> string"
  date_now :: string
  math_random :: string
  iso_string :: string

text \<open>
  What a run has done so far: the number of file reads and the prompts of the model calls
  issued, oldest first.
\<close>

record world =
  file_reads :: nat
  model_calls :: "prompt list"

type_synonym 'a io = "world \<Rightarrow> 'a outcome \<times> world"

definition return_io :: "'a \<Rightarrow> 'a io" where
  "return_io x = (\<lambda>w. (Returns x, w))"

definition throw_io :: "thrown \<Rightarrow> 'a io" where
  "throw_io e = (\<lambda>w. (Throws e, w))"

definition bind_io :: "'a io \<Rightarrow> ('a \<Rightarrow> 'b io) \<Rightarrow> 'b io" where
  "bind_io m f = (\<lambda>w. case m w of (Returns x, w') \<Rightarrow> f x w' | (Throws e, w') \<Rightarrow> (Throws e, w'))"

definition catch_io :: "'a io \<Rightarrow> (thrown \<Rightarrow> 'a io) \<Rightarrow> 'a io" where
  "catch_io m h = (\<lambda>w. case m w of (Returns x, w') \<Rightarrow> (Returns x, w') | (Throws e, w') \<Rightarrow> h e w')"

definition lift_io :: "'a outcome \<Rightarrow> 'a io" where
  "lift_io r = (\<lambda>w. (r, w))"

section \<open>Currency formatting (\<open>src/common/helpers.ts\<close>)\<close>

definition CURRENCY_LOCALE_MAP :: "(string \<times> string) list" where
  "CURRENCY_LOCALE_MAP =
     [(''USD'', ''en-US''), (''EUR'', ''de-DE''), (''GBP'', ''en-GB''), (''JPY'', ''ja-JP''),
      (''CAD'', ''en-CA''), (''AUD'', ''en-AU''), (''CHF'', ''de-CH''), (''CNY'', ''zh-CN''),
      (''INR'', ''en-IN''), (''KRW'', ''ko-KR''), (''SGD'', ''en-SG''), (''HKD'', ''en-HK''),
      (''MXN'', ''es-MX''), (''BRL'', ''pt-BR''), (''RUB'', ''ru-RU''), (''SEK'', ''sv-SE''),
      (''NOK'', ''nb-NO''), (''DKK'', ''da-DK''), (''PLN'', ''pl-PL''), (''CZK'', ''cs-CZ''),
      (''HUF'', ''hu-HU''), (''RON'', ''ro-RO''), (''BGN'', ''bg-BG''), (''HRK'', ''hr-HR''),
      (''TRY'', ''tr-TR''), (''ILS'', ''he-IL''), (''AED'', ''ar-AE''), (''SAR'', ''ar-SA''),
      (''THB'', ''th-TH''), (''VND'', ''vi-VN''), (''IDR'', ''id-ID''), (''MYR'', ''ms-MY''),
      (''PHP'', ''en-PH''), (''TWD'', ''zh-TW''), (''NZD'', ''en-NZ''), (''ZAR'', ''en-ZA''),
      (''EGP'', ''ar-EG''), (''NGN'', ''en-NG''), (''KES'', ''sw-KE''), (''GHS'', ''en-GH''),
      (''MAD'', ''ar-MA''), (''TND'', ''ar-TN''), (''JOD'', ''ar-JO''), (''LBP'', ''ar-LB''),
      (''QAR'', ''ar-QA''), (''KWD'', ''ar-KW''), (''BHD'', ''ar-BH''), (''OMR'', ''ar-OM'')]"

text \<open>
  The platform of \<open>formatCurrency\<close>, over a type \<open>'n\<close> of numbers: \<open>parseFloat\<close>,
  \<open>isNaN\<close>, \<open>String.prototype.toUpperCase\<close>, and the constructor of
  \<open>Intl.NumberFormat\<close> for a locale and the options \<open>style: 'currency'\<close>, a currency
  code and the two fraction-digit bounds, which throws a \<open>RangeError\<close> or gives the
  function \<open>format\<close>. An amount is a number or a string.
\<close>

datatype NumberFormatOptions = CurrencyStyle string nat nat

record 'n intl =
  parseFloat :: "string \<Rightarrow> 'n"
  isNaN :: "'n \<Rightarrow> bool"
  toUpperCase :: "string \<Rightarrow> string"
  NumberFormat :: "string \<Rightarrow> NumberFormatOptions \<Rightarrow> ('n \<Rightarrow> string) outcome"

datatype 'n amount = NumberAmount 'n | StringAmount string

definition currency_locale :: "'n intl \<Rightarrow> string \<Rightarrow> string" where
  "currency_locale P currencyCode =
     (case map_of CURRENCY_LOCALE_MAP (toUpperCase P currencyCode) of
        Some locale \<Rightarrow> if locale = [] then ''en-US'' else locale
      | None \<Rightarrow> ''en-US'')"

definition formatCurrency :: "'n intl \<Rightarrow> 'n amount \<Rightarrow> string option \<Rightarrow> string outcome" where
  "formatCurrency P amt code =
     (let currencyCode = (case code of None \<Rightarrow> ''USD'' | Some c \<Rightarrow> c);
          numAmount = (case amt of StringAmount s \<Rightarrow> parseFloat P s | NumberAmount n \<Rightarrow> n)
      in if isNaN P numAmount then Returns ''N/A''
         else
           let locale = currency_locale P currencyCode
           in case obind (NumberFormat P locale (CurrencyStyle (toUpperCase P currencyCode) 2 2))
                     (\<lambda>format. Returns (format numAmount)) of
                Returns formatted \<Rightarrow> Returns formatted
              | Throws err \<Rightarrow>
                  obind (NumberFormat P ''en-US'' (CurrencyStyle ''USD'' 2 2))
                    (\<lambda>format. Returns (format numAmount)))"

section \<open>The receipt service (\<open>GeminiReceiptService\<close>)\<close>

text \<open>
  The record the service builds. \<open>id\<close> and \<open>total\<close> are written \<open>id'\<close> and \<open>total'\<close>.
  A field copied from the parsed answer holds whatever value the answer had there.
\<close>

record ReceiptData =
  id' :: string
  storeName :: jv
  address :: jv
  phone :: jv
  date :: jv
  items :: "jv list"
  total' :: jv
  tax :: jv
  timestamp :: string
  fileName :: string
  totalItems :: jv
  currency :: jv
  products :: "jv list"
  total_spending :: jv
  extraction_date :: string
  file_name :: string

record ApiResponse =
  success :: bool
  data :: "ReceiptData option"
  error :: "string option"

record Validation =
  isValid :: bool
  reason :: "string option"

text \<open>\<open>initialize(apiKey)\<close>: the new value of the field \<open>genAI\<close>, or the throw.\<close>

definition initialize :: "string \<Rightarrow> string option outcome" where
  "initialize apiKey =
     (if apiKey = [] then Throws (ErrorObj ''Gemini API key is required'')
      else Returns (Some apiKey))"

fun split_on :: "char \<Rightarrow> string \<Rightarrow> string list" where
  "split_on sep [] = [[]]"
| "split_on sep (c # cs) =
     (if c = sep then [] # split_on sep cs
      else (case split_on sep cs of
              [] \<Rightarrow> [[c]]
            | part # parts \<Rightarrow> (c # part) # parts))"

text \<open>\<open>result.split(',')[1]\<close>: \<open>None\<close> is \<open>undefined\<close>.\<close>

definition second_part :: "string \<Rightarrow> string option" where
  "second_part result =
     (case split_on CHR '','' result of
        a # b # rest \<Rightarrow> Some b
      | _ \<Rightarrow> None)"

definition fileToBase64 :: "env \<Rightarrow> jsfile \<Rightarrow> string option io" where
  "fileToBase64 e file =
     (\<lambda>w. (obind (readAsDataURL e (file_reads w) file) (\<lambda>result. Returns (second_part result)),
           w\<lparr>file_reads := Suc (file_reads w)\<rparr>))"

definition models_generateContent :: "env \<Rightarrow> prompt \<Rightarrow> string option \<Rightarrow> string option io" where
  "models_generateContent e p imagePart =
     (\<lambda>w. (generateContent e (length (model_calls w)) p imagePart,
           w\<lparr>model_calls := model_calls w @ [p]\<rparr>))"

text \<open>
  \<open>validateReceiptImage\<close>: the \<open>try\<close> block first, then the function with its
  \<open>catch\<close>.
\<close>

definition validateReceiptImage_try :: "env \<Rightarrow> string option \<Rightarrow> jsfile \<Rightarrow> Validation io" where
  "validateReceiptImage_try e genAI file =
     bind_io (if genAI = None then throw_io (ErrorObj ''Gemini service not initialized'')
              else return_io ()) (\<lambda>_.
     bind_io (fileToBase64 e file) (\<lambda>base64Data.
     bind_io (models_generateContent e ValidationPrompt base64Data) (\<lambda>response.
       let validationText = map_option trim response
       in case validationText of
            None \<Rightarrow> return_io \<lparr>isValid = False,
              reason = Some ''Unable to analyze image. Please try with a clearer image.''\<rparr>
          | Some t \<Rightarrow>
              if t = [] then return_io \<lparr>isValid = False,
                reason = Some ''Unable to analyze image. Please try with a clearer image.''\<rparr>
              else if str_includes t ''VALID_RECEIPT'' then
                return_io \<lparr>isValid = True, reason = None\<rparr>
              else if str_includes t ''NOT_RECEIPT'' then
                return_io \<lparr>isValid = False,
                  reason = Some ''This image does not appear to be a payment receipt. Please upload a receipt, invoice, or bill.''\<rparr>
              else if str_includes t ''UNCLEAR_IMAGE'' then
                return_io \<lparr>isValid = False,
                  reason = Some ''The image is too unclear to process. Please upload a clearer image of your receipt.''\<rparr>
              else
                return_io \<lparr>isValid = False,
                  reason = Some ''Unable to determine if this is a valid receipt. Please try with a clearer receipt image.''\<rparr>)))"

definition validateReceiptImage :: "env \<Rightarrow> string option \<Rightarrow> jsfile \<Rightarrow> Validation io" where
  "validateReceiptImage e genAI file =
     catch_io (validateReceiptImage_try e genAI file)
       (\<lambda>error. return_io \<lparr>isValid = False,
          reason = Some ''Failed to validate image. Please try again.''\<rparr>)"

text \<open>
  The clean-up of the answer and its parse. The three regular expressions are
  \<open>/```json\n?/\<close>, \<open>/```\n?/\<close> and \<open>/\n?```$/\<close>.
\<close>

definition fence :: string where
  "fence = ''```''"

definition json_fence_open :: regex where
  "json_fence_open = [lits (fence @ ''json'') @ [Opt (CHR 0x0A)]]"

definition fence_open :: regex where
  "fence_open = [lits fence @ [Opt (CHR 0x0A)]]"

definition fence_close :: regex where
  "fence_close = [[Opt (CHR 0x0A)] @ lits fence @ [End]]"

definition clean_response :: "string \<Rightarrow> string" where
  "clean_response text0 =
     (let text = trim text0
      in if startsWith text (fence @ ''json'') then
           replace_first False fence_close (replace_first False json_fence_open text)
         else if startsWith text fence then
           replace_first False fence_close (replace_first False fence_open text)
         else text)"

definition parse_response :: "env \<Rightarrow> string \<Rightarrow> jv outcome" where
  "parse_response e text0 =
     (case JSON_parse e (clean_response text0) of
        Some extractedData \<Rightarrow> Returns extractedData
      | None \<Rightarrow> Throws (ErrorObj ''Failed to parse AI response as JSON''))"

text \<open>
  For the comparison of a fenced answer with the bare one: the white space of JSON (space,
  TAB, LF, CR), a text stripped of it at both ends, and a text \<open>t\<close> put between
  Markdown code fences, with and without the language tag.
\<close>

definition json_ws :: "char \<Rightarrow> bool" where
  "json_ws c = (c \<in> set [CHR 0x20, CHR 0x09, CHR 0x0A, CHR 0x0D])"

definition json_trim :: "string \<Rightarrow> string" where
  "json_trim s = rev (dropWhile json_ws (rev (dropWhile json_ws s)))"

definition fenced_json :: "string \<Rightarrow> string" where
  "fenced_json t = fence @ ''json'' @ [CHR 0x0A] @ t @ [CHR 0x0A] @ fence"

definition fenced :: "string \<Rightarrow> string" where
  "fenced t = fence @ [CHR 0x0A] @ t @ [CHR 0x0A] @ fence"

text \<open>
  Two facts of the JSON grammar that \<open>JSON.parse\<close> obeys, stated for a parser \<open>parse\<close>:
  it ignores JSON white space around the text, and a text it accepts starts, after that
  white space, with the first character of a value and ends with the last character of one.
\<close>

definition ignores_json_ws :: "(string \<Rightarrow> jv option) \<Rightarrow> bool" where
  "ignores_json_ws parse = (\<forall>s. parse s = parse (json_trim s))"

definition value_first :: "char \<Rightarrow> bool" where
  \<open>value_first c = (c \<in> set ''{["-0123456789tfn'')\<close>

definition value_last :: "char \<Rightarrow> bool" where
  \<open>value_last c = (c \<in> set ''}]"0123456789el'')\<close>

definition json_text_shape :: "(string \<Rightarrow> jv option) \<Rightarrow> bool" where
  "json_text_shape parse =
     (\<forall>s. parse s \<noteq> None \<longrightarrow>
        json_trim s \<noteq> [] \<and> value_first (hd (json_trim s)) \<and> value_last (last (json_trim s)))"

text \<open>
  Reading a property. Reading one of \<open>null\<close> or \<open>undefined\<close> throws a \<open>TypeError\<close>. An
  object gives the value of its own property or \<open>undefined\<close>. A string, a number, a boolean
  and an array have none of the properties the service reads (\<open>items\<close>, \<open>name\<close>,
  \<open>price\<close>, \<open>quantity\<close>, \<open>storeName\<close>, \<open>address\<close>, \<open>phone\<close>, \<open>date\<close>, \<open>total\<close>,
  \<open>tax\<close>, \<open>totalItems\<close>, \<open>currency\<close>), so the read gives \<open>undefined\<close>.
\<close>

definition read_prop :: "env \<Rightarrow> jv \<Rightarrow> string \<Rightarrow> jv outcome" where
  "read_prop e v p =
     (case v of
        JUndefined \<Rightarrow> Throws (ErrorObj (null_read_message e p))
      | JNull \<Rightarrow> Throws (ErrorObj (null_read_message e p))
      | JObj kvs \<Rightarrow> Returns (case map_of kvs p of Some x \<Rightarrow> x | None \<Rightarrow> JUndefined)
      | _ \<Rightarrow> Returns JUndefined)"

text \<open>The loop that checks each item, in order, and stops at the first throw.\<close>

fun validate_items :: "env \<Rightarrow> jv list \<Rightarrow> unit outcome" where
  "validate_items e [] = Returns ()"
| "validate_items e (item # rest) =
     obind (read_prop e item ''name'') (\<lambda>name.
       if \<not> is_string name then Throws (ErrorObj ''Invalid item format in response'')
       else obind (read_prop e item ''price'') (\<lambda>price.
         if \<not> is_string price then Throws (ErrorObj ''Invalid item format in response'')
         else obind (read_prop e item ''quantity'') (\<lambda>quantity.
           if \<not> is_string quantity then Throws (ErrorObj ''Invalid item format in response'')
           else validate_items e rest)))"

text \<open>
  The check of the parsed answer: \<open>items\<close> must be there and be an array, and every item
  must pass. The result is the array.
\<close>

definition validate_structure :: "env \<Rightarrow> jv \<Rightarrow> jv list outcome" where
  "validate_structure e extractedData =
     obind (read_prop e extractedData ''items'') (\<lambda>its.
       if \<not> truthy its \<or> \<not> isArray its then
         Throws (ErrorObj ''Invalid response format: missing items array'')
       else (case its of
               JArr xs \<Rightarrow> obind (validate_items e xs) (\<lambda>_. Returns xs)
             | _ \<Rightarrow> Throws (ErrorObj ''Invalid response format: missing items array'')))"

text \<open>The callback of \<open>items.map\<close> that builds one legacy product.\<close>

definition legacy_product :: "env \<Rightarrow> jv \<Rightarrow> jv outcome" where
  "legacy_product e item =
     obind (read_prop e item ''name'') (\<lambda>n.
     obind (read_prop e item ''price'') (\<lambda>p.
     obind (read_prop e item ''quantity'') (\<lambda>q.
     obind (read_prop e item ''price'') (\<lambda>t.
       Returns (JObj [(''name'', n), (''price'', p), (''quantity'', q), (''total'', t)])))))"

fun map_outcome :: "('a \<Rightarrow> 'b outcome) \<Rightarrow> 'a list \<Rightarrow> 'b list outcome" where
  "map_outcome f [] = Returns []"
| "map_outcome f (x # xs) =
     obind (f x) (\<lambda>y. obind (map_outcome f xs) (\<lambda>ys. Returns (y # ys)))"

text \<open>
  The object literal \<open>receiptData\<close>, its properties evaluated in the order of the source.
\<close>

definition build_receipt :: "env \<Rightarrow> jsfile \<Rightarrow> jv \<Rightarrow> jv list \<Rightarrow> ReceiptData outcome" where
  "build_receipt e file extractedData its =
     (let ident = ''receipt_'' @ date_now e @ ''_'' @ take 9 (drop 2 (math_random e));
          stamp = iso_string e
      in obind (read_prop e extractedData ''storeName'') (\<lambda>v_storeName.
         obind (read_prop e extractedData ''address'') (\<lambda>v_address.
         obind (read_prop e extractedData ''phone'') (\<lambda>v_phone.
         obind (read_prop e extractedData ''date'') (\<lambda>v_date.
         obind (read_prop e extractedData ''total'') (\<lambda>v_total.
         obind (read_prop e extractedData ''tax'') (\<lambda>v_tax.
         obind (read_prop e extractedData ''totalItems'') (\<lambda>v_totalItems.
         obind (read_prop e extractedData ''currency'') (\<lambda>v_currency.
         obind (map_outcome (legacy_product e) its) (\<lambda>v_products.
         obind (read_prop e extractedData ''total'') (\<lambda>v_total2.
           Returns \<lparr>id' = ident,
                    storeName = or_else v_storeName JNull,
                    address = or_else v_address JNull,
                    phone = or_else v_phone JNull,
                    date = or_else v_date JNull,
                    items = its,
                    total' = or_else v_total JNull,
                    tax = or_else v_tax JNull,
                    timestamp = stamp,
                    fileName = name file,
                    totalItems = or_else v_totalItems JNull,
                    currency = or_else v_currency (JStr ''USD''),
                    products = v_products,
                    total_spending = or_else v_total2 (JNum 0),
                    extraction_date = stamp,
                    file_name = name file\<rparr>)))))))))))"

text \<open>
  \<open>extractReceiptData\<close>: the \<open>try\<close> block first, then the function with its
  \<open>catch\<close>.
\<close>

definition extractReceiptData_try :: "env \<Rightarrow> string option \<Rightarrow> jsfile \<Rightarrow> ApiResponse io" where
  "extractReceiptData_try e genAI file =
     bind_io (if genAI = None
              then throw_io (ErrorObj ''Gemini service not initialized. Please provide API key.'')
              else return_io ()) (\<lambda>_.
     bind_io (validateReceiptImage e genAI file) (\<lambda>validation.
       if \<not> isValid validation then
         return_io \<lparr>success = False, data = None,
           error = Some (case reason validation of
                           None \<Rightarrow> ''Invalid receipt image''
                         | Some r \<Rightarrow> if r = [] then ''Invalid receipt image'' else r)\<rparr>
       else
         bind_io (fileToBase64 e file) (\<lambda>base64Data.
         bind_io (models_generateContent e ExtractionPrompt base64Data) (\<lambda>response.
         bind_io (case response of
                    None \<Rightarrow> throw_io (ErrorObj ''No text content received from AI response'')
                  | Some t \<Rightarrow>
                      if t = []
                      then throw_io (ErrorObj ''No text content received from AI response'')
                      else return_io t) (\<lambda>text.
         bind_io (lift_io (parse_response e text)) (\<lambda>extractedData.
         bind_io (lift_io (validate_structure e extractedData)) (\<lambda>its.
         bind_io (lift_io (build_receipt e file extractedData its)) (\<lambda>receiptData.
           return_io \<lparr>success = True, data = Some receiptData, error = None\<rparr>))))))))"

definition extractReceiptData :: "env \<Rightarrow> string option \<Rightarrow> jsfile \<Rightarrow> ApiResponse io" where
  "extractReceiptData e genAI file =
     catch_io (extractReceiptData_try e genAI file)
       (\<lambda>error. return_io \<lparr>success = False, data = None,
          error = Some (case error of
                          ErrorObj message \<Rightarrow> message
                        | NonError \<Rightarrow> ''Unknown error occurred during extraction'')\<rparr>)"

text \<open>
  A response is discriminated when it is a success with data and no error, or a failure
  with an error message and no data.
\<close>

definition discriminated :: "ApiResponse \<Rightarrow> bool" where
  "discriminated r =
     (if success r then ApiResponse.data r \<noteq> None \<and> ApiResponse.error r = None
      else ApiResponse.data r = None \<and> ApiResponse.error r \<noteq> None)"

text \<open>
  The errors the platform raises carry a message: no file read and no model call throws an
  \<open>Error\<close> whose message is empty, and the engine's message for a property read of
  \<open>null\<close> is not empty.
\<close>

definition errors_have_messages :: "env \<Rightarrow> bool" where
  "errors_have_messages e =
     ((\<forall>n fl. readAsDataURL e n fl \<noteq> Throws (ErrorObj [])) \<and>
      (\<forall>n p imagePart. generateContent e n p imagePart \<noteq> Throws (ErrorObj [])) \<and>
      (\<forall>p. null_read_message e p \<noteq> []))"

section \<open>The store slice (\<open>receiptSlice\<close>) and the extraction thunk\<close>

record ExtractionState =
  isLoading :: bool
  isProcessing :: bool
  data :: "ReceiptData option"
  currentExtraction :: "ReceiptData option"
  error :: "string option"
  progress :: int
  history :: "ReceiptData list"

text \<open>
  \<open>localStorage\<close>, reduced to the one key the slice uses: the list last saved under
  \<open>receipt-extraction-history\<close> (\<open>None\<close> when nothing was saved), and whether
  \<open>setItem\<close> succeeds. A failing write is caught and logged.
\<close>

record Storage =
  stored :: "ReceiptData list option"
  writable :: bool

definition saveHistoryToStorage :: "ReceiptData list \<Rightarrow> Storage \<Rightarrow> Storage" where
  "saveHistoryToStorage h st = (if writable st then st\<lparr>stored := Some h\<rparr> else st)"

text \<open>
  What \<open>getItem\<close> finds when the module is loaded: no text (or the empty text), a text
  that \<open>JSON.parse\<close> refuses, the text of a list of receipts, or a text that parses to
  something else. \<open>loadHistoryFromStorage\<close> returns the empty list in the first two
  cases and the parsed value otherwise; the result \<open>None\<close> stands for a parsed value that
  is not a list of receipts, with which the state has no well-formed history.
\<close>

datatype StoredText = NoText | Unparsable | ListText "ReceiptData list" | OtherText

definition stored_text :: "Storage \<Rightarrow> StoredText" where
  "stored_text st = (case stored st of None \<Rightarrow> NoText | Some h \<Rightarrow> ListText h)"

definition loadHistoryFromStorage :: "StoredText \<Rightarrow> ReceiptData list option" where
  "loadHistoryFromStorage t =
     (case t of
        NoText \<Rightarrow> Some []
      | Unparsable \<Rightarrow> Some []
      | ListText h \<Rightarrow> Some h
      | OtherText \<Rightarrow> None)"

definition initialState :: "StoredText \<Rightarrow> ExtractionState option" where
  "initialState t =
     map_option
       (\<lambda>h. \<lparr>isLoading = False, isProcessing = False, data = None, currentExtraction = None,
              error = None, progress = 0, history = h\<rparr>)
       (loadHistoryFromStorage t)"

datatype Action =
    ResetState
  | ClearCurrentExtraction
  | ClearError
  | UpdateProgress int
  | SaveToHistory
  | ClearHistory
  | RemoveFromHistory string
  | LoadFromHistory string
  | ExtractPending
  | ExtractFulfilled ReceiptData
  | ExtractRejected string
  | TestApiKeyPending
  | TestApiKeyFulfilled
  | TestApiKeyRejected string

fun reducer :: "ExtractionState \<times> Storage \<Rightarrow> Action \<Rightarrow> ExtractionState \<times> Storage" where
  "reducer (s, st) ResetState =
     (s\<lparr>isLoading := False, isProcessing := False, data := None, currentExtraction := None,
        error := None, progress := 0\<rparr>, st)"
| "reducer (s, st) ClearCurrentExtraction =
     (s\<lparr>currentExtraction := None, error := None, progress := 0\<rparr>, st)"
| "reducer (s, st) ClearError = (s\<lparr>error := None\<rparr>, st)"
| "reducer (s, st) (UpdateProgress p) = (s\<lparr>progress := p\<rparr>, st)"
| "reducer (s, st) SaveToHistory =
     (case data s of
        Some d \<Rightarrow>
          (let newHistory = d # take 9 (history s)
           in (s\<lparr>history := newHistory\<rparr>, saveHistoryToStorage newHistory st))
      | None \<Rightarrow> (s, st))"
| "reducer (s, st) ClearHistory = (s\<lparr>history := []\<rparr>, saveHistoryToStorage [] st)"
| "reducer (s, st) (RemoveFromHistory fileNameToRemove) =
     (let h = filter (\<lambda>item. file_name item \<noteq> fileNameToRemove) (history s)
      in (s\<lparr>history := h\<rparr>, saveHistoryToStorage h st))"
| "reducer (s, st) (LoadFromHistory fname) =
     (case find (\<lambda>item. file_name item = fname) (history s) of
        Some historyItem \<Rightarrow> (s\<lparr>data := Some historyItem, error := None\<rparr>, st)
      | None \<Rightarrow> (s, st))"
| "reducer (s, st) ExtractPending =
     (s\<lparr>isLoading := True, isProcessing := True, error := None, progress := 0\<rparr>, st)"
| "reducer (s, st) (ExtractFulfilled payload) =
     (let newHistory = payload # take 9 (history s)
      in (s\<lparr>isLoading := False, isProcessing := False, data := Some payload,
            currentExtraction := Some payload, error := None, progress := 100,
            history := newHistory\<rparr>,
          saveHistoryToStorage newHistory st))"
| "reducer (s, st) (ExtractRejected payload) =
     (s\<lparr>isLoading := False, isProcessing := False, error := Some payload, progress := 0\<rparr>, st)"
| "reducer (s, st) TestApiKeyPending = (s\<lparr>isLoading := True, error := None\<rparr>, st)"
| "reducer (s, st) TestApiKeyFulfilled = (s\<lparr>isLoading := False, error := None\<rparr>, st)"
| "reducer (s, st) (TestApiKeyRejected payload) =
     (s\<lparr>isLoading := False, error := Some payload\<rparr>, st)"

definition dispatch_all :: "ExtractionState \<times> Storage \<Rightarrow> Action list \<Rightarrow> ExtractionState \<times> Storage" where
  "dispatch_all app acts = foldl reducer app acts"

text \<open>
  The thunk \<open>extractReceiptData\<close> of the slice: the actions it dispatches, in order, for a
  payload \<open>{file, apiKey}\<close>. \<open>createAsyncThunk\<close> dispatches \<open>pending\<close> before the body
  runs and \<open>fulfilled\<close> with the returned value, or \<open>rejected\<close> with the value given to
  \<open>rejectWithValue\<close>, after it. The second component is the field \<open>genAI\<close> of the
  service after the run.
\<close>

definition thunk_error_message :: "thrown \<Rightarrow> string" where
  "thunk_error_message err =
     (case err of ErrorObj message \<Rightarrow> message | NonError \<Rightarrow> ''Unknown error occurred'')"

definition extract_thunk ::
  "env \<Rightarrow> string option \<Rightarrow> jsfile \<Rightarrow> string \<Rightarrow> world \<Rightarrow> (Action list \<times> string option) \<times> world" where
  "extract_thunk e genAI file apiKey w =
     (case initialize apiKey of
        Throws err \<Rightarrow> (([ExtractPending, ExtractRejected (thunk_error_message err)], genAI), w)
      | Returns genAI' \<Rightarrow>
          (case extractReceiptData e genAI' file w of
             (Throws err, w') \<Rightarrow>
               (([ExtractPending, UpdateProgress 25,
                  ExtractRejected (thunk_error_message err)], genAI'), w')
           | (Returns result, w') \<Rightarrow>
               (case (success result, ApiResponse.data result) of
                  (True, Some d) \<Rightarrow>
                    (([ExtractPending, UpdateProgress 25, UpdateProgress 75,
                       UpdateProgress 100, ExtractFulfilled d], genAI'), w')
                | _ \<Rightarrow>
                    (([ExtractPending, UpdateProgress 25, UpdateProgress 75,
                       ExtractRejected
                         (case ApiResponse.error result of
                            None \<Rightarrow> ''Failed to extract receipt data''
                          | Some m \<Rightarrow> if m = [] then ''Failed to extract receipt data'' else m)],
                      genAI'), w'))))"

text \<open>One extraction attempt as the store sees it: the thunk's actions, reduced in order.\<close>

definition run_extraction ::
  "env \<Rightarrow> string option \<Rightarrow> jsfile \<Rightarrow> string \<Rightarrow> world \<Rightarrow> ExtractionState \<times> Storage
     \<Rightarrow> ExtractionState \<times> Storage" where
  "run_extraction e genAI file apiKey w app =
     dispatch_all app (fst (fst (extract_thunk e genAI file apiKey w)))"

text \<open>
  For the history cap: \<open>clearHistory\<close> and \<open>removeFromHistory\<close> take entries out of
  the history; \<open>added_by s a\<close> is the record action \<open>a\<close> puts into the history of
  state \<open>s\<close> (the payload of a fulfilled extraction, \<open>data\<close> for \<open>saveToHistory\<close> unless
  it is \<open>null\<close>, none for any other action), and \<open>additions app acts\<close> lists the records a
  run of actions adds, the most recent first.
\<close>

definition removes_entries :: "Action \<Rightarrow> bool" where
  "removes_entries a =
     (case a of ClearHistory \<Rightarrow> True | RemoveFromHistory f \<Rightarrow> True | _ \<Rightarrow> False)"

definition added_by :: "ExtractionState \<Rightarrow> Action \<Rightarrow> ReceiptData list" where
  "added_by s a =
     (case a of
        ExtractFulfilled r \<Rightarrow> [r]
      | SaveToHistory \<Rightarrow> (case data s of Some d \<Rightarrow> [d] | None \<Rightarrow> [])
      | _ \<Rightarrow> [])"

fun additions :: "ExtractionState \<times> Storage \<Rightarrow> Action list \<Rightarrow> ReceiptData list" where
  "additions app [] = []"
| "additions app (a # acts) = additions (reducer app a) acts @ added_by (fst app) a"

text \<open>A receipt for examples: every field empty but the file name and the identifier.\<close>

definition receipt_named :: "string \<Rightarrow> ReceiptData" where
  "receipt_named f =
     \<lparr>id' = ''receipt_'' @ f, storeName = JNull, address = JNull, phone = JNull, date = JNull,
      items = [], total' = JNull, tax = JNull, timestamp = [], fileName = f,
      totalItems = JNull, currency = JStr ''USD'', products = [], total_spending = JNum 0,
      extraction_date = [], file_name = f\<rparr>"

text \<open>The actions of one successful extraction, as the thunk dispatches them.\<close>

definition successful_run :: "ReceiptData \<Rightarrow> Action list" where
  "successful_run r =
     [ExtractPending, UpdateProgress 25, UpdateProgress 75, UpdateProgress 100, ExtractFulfilled r]"

definition idle_state :: ExtractionState where
  "idle_state =
     \<lparr>isLoading = False, isProcessing = False, data = None, currentExtraction = None,
      error = None, progress = 0, history = []\<rparr>"

section \<open>Scripted worlds for examples\<close>

text \<open>
  The wording of V8 for the \<open>TypeError\<close> of a property read of \<open>null\<close>.
\<close>

definition v8_null_read_message :: "string \<Rightarrow> string" where
  "v8_null_read_message p =
     ''Cannot read properties of null (reading '' @ [CHR 0x27] @ p @ [CHR 0x27] @ '')''"

text \<open>
  A world in which every file read succeeds, the first model call gives \<open>validation\<close>
  and every later one \<open>extraction\<close>, with \<open>parse\<close> for \<open>JSON.parse\<close>.
\<close>

definition scripted_env ::
  "string option outcome \<Rightarrow> string option outcome \<Rightarrow> (string \<Rightarrow> jv option) \<Rightarrow> env" where
  "scripted_env validation extraction parse =
     \<lparr>readAsDataURL = (\<lambda>n file. Returns ''data:image/png;base64,AAAA''),
      generateContent = (\<lambda>n p imagePart. if n = 0 then validation else extraction),
      JSON_parse = parse,
      null_read_message = v8_null_read_message,
      date_now = ''1700000000000'',
      math_random = ''0.4fzyo82mvyr'',
      iso_string = ''2023-11-14T22:13:20.000Z''\<rparr>"

definition fresh_world :: world where
  "fresh_world = \<lparr>file_reads = 0, model_calls = []\<rparr>"

definition photo :: jsfile where
  "photo = \<lparr>name = ''photo.png'', type = ''image/png''\<rparr>"

section \<open>The count of items the specification describes\<close>

text \<open>
  The specification derives \<open>totalItems\<close>, when the receipt does not print it, as the sum
  of the quantities of the items with a positive price. \<open>decimal\<close> reads the text of a
  quantity or a price: an optional minus sign, digits, and an optional fraction.
\<close>

definition digit_value :: "char \<Rightarrow> nat option" where
  "digit_value c =
     (let n = (of_char c :: nat) in if 48 \<le> n \<and> n \<le> 57 then Some (n - 48) else None)"

fun digits_value :: "nat \<Rightarrow> string \<Rightarrow> nat option" where
  "digits_value acc [] = Some acc"
| "digits_value acc (c # cs) =
     (case digit_value c of
        None \<Rightarrow> None
      | Some v \<Rightarrow> digits_value (10 * acc + v) cs)"

definition decimal :: "string \<Rightarrow> rat option" where
  "decimal s =
     (let negative = (s \<noteq> [] \<and> hd s = CHR ''-'');
          body = (if negative then tl s else s);
          whole = takeWhile (\<lambda>c. c \<noteq> CHR ''.'') body;
          fraction = drop 1 (dropWhile (\<lambda>c. c \<noteq> CHR ''.'') body)
      in if whole = [] then None
         else (case (digits_value 0 whole, digits_value 0 fraction) of
                 (Some a, Some b) \<Rightarrow>
                   Some ((if negative then -1 else 1) *
                         (of_nat a + of_nat b / of_nat (10 ^ length fraction)))
               | _ \<Rightarrow> None))"

definition text_field :: "jv \<Rightarrow> string \<Rightarrow> string option" where
  "text_field item p =
     (case item of
        JObj kvs \<Rightarrow> (case map_of kvs p of Some (JStr s) \<Rightarrow> Some s | _ \<Rightarrow> None)
      | _ \<Rightarrow> None)"

definition counted_quantity :: "jv \<Rightarrow> rat" where
  "counted_quantity item =
     (case (Option.bind (text_field item ''price'') decimal,
            Option.bind (text_field item ''quantity'') decimal) of
        (Some price, Some quantity) \<Rightarrow> if 0 < price then quantity else 0
      | _ \<Rightarrow> 0)"

definition spec_totalItems :: "jv list \<Rightarrow> jv" where
  "spec_totalItems its = JNum (sum_list (map counted_quantity its))"

section \<open>A JSON parser\<close>

text \<open>
  A parser for the JSON grammar (ECMA-404), used as \<open>JSON.parse\<close> in the examples: a
  value is an object, an array, a string, a number or one of \<open>true\<close>, \<open>false\<close>,
  \<open>null\<close>, with JSON white space allowed around every token. A member set twice keeps
  its first place and its last value. A \<open>\u\<close> escape above U+00FF is outside the
  modelled range of characters and is refused. The first argument of the three parsing
  functions bounds the depth of the recursion.
\<close>

definition is_digit :: "char \<Rightarrow> bool" where
  "is_digit c = (c \<in> set ''0123456789'')"

definition hex_value :: "char \<Rightarrow> nat option" where
  "hex_value c =
     map_of (zip ''0123456789abcdefABCDEF''
                 [0, 1, 2, 3, 4, 5, 6, 7, 8, 9, 10, 11, 12, 13, 14, 15, 10, 11, 12, 13, 14, 15]) c"

definition is_control :: "char \<Rightarrow> bool" where
  "is_control c = ((of_char c :: nat) < 32)"

definition unicode_escape :: "char \<Rightarrow> char \<Rightarrow> char \<Rightarrow> char \<Rightarrow> char option" where
  "unicode_escape a b c d =
     (case (hex_value a, hex_value b, hex_value c, hex_value d) of
        (Some x, Some y, Some z, Some u) \<Rightarrow>
          (let n = ((x * 16 + y) * 16 + z) * 16 + u
           in if n < 256 then Some (char_of n) else None)
      | _ \<Rightarrow> None)"

definition single_escape :: "char \<Rightarrow> char option" where
  \<open>single_escape c =
     map_of [(CHR 0x22, CHR 0x22), (CHR 0x5C, CHR 0x5C), (CHR ''/'', CHR ''/''),
             (CHR ''b'', CHR 0x08), (CHR ''f'', CHR 0x0C), (CHR ''n'', CHR 0x0A),
             (CHR ''r'', CHR 0x0D), (CHR ''t'', CHR 0x09)] c\<close>

fun string_body :: "string \<Rightarrow> (string \<times> string) option" where
  "string_body [] = None"
| "string_body (c # cs) =
     (if c = CHR 0x22 then Some ([], cs)
      else if c = CHR 0x5C then
        (case cs of
           [] \<Rightarrow> None
         | e # r \<Rightarrow>
             if e = CHR ''u'' then
               (case r of
                  a # b # c' # d # r' \<Rightarrow>
                    (case unicode_escape a b c' d of
                       None \<Rightarrow> None
                     | Some x \<Rightarrow> map_option (\<lambda>(str, rest). (x # str, rest)) (string_body r'))
                | _ \<Rightarrow> None)
             else
               (case single_escape e of
                  None \<Rightarrow> None
                | Some x \<Rightarrow> map_option (\<lambda>(str, rest). (x # str, rest)) (string_body r)))
      else if is_control c then None
      else map_option (\<lambda>(str, rest). (c # str, rest)) (string_body cs))"

definition number_value :: "bool \<Rightarrow> string \<Rightarrow> string \<Rightarrow> bool \<Rightarrow> string \<Rightarrow> rat" where
  "number_value negative whole fraction exp_negative exponent =
     (let w = (case digits_value 0 whole of Some n \<Rightarrow> n | None \<Rightarrow> 0);
          f = (case digits_value 0 fraction of Some n \<Rightarrow> n | None \<Rightarrow> 0);
          x = (case digits_value 0 exponent of Some n \<Rightarrow> n | None \<Rightarrow> 0);
          m = of_nat w + of_nat f / of_nat (10 ^ length fraction);
          scaled = (if exp_negative then m / of_nat (10 ^ x) else m * of_nat (10 ^ x))
      in if negative then - scaled else scaled)"

definition number_token :: "string \<Rightarrow> (rat \<times> string) option" where
  "number_token s =
     (let negative = (s \<noteq> [] \<and> hd s = CHR ''-'');
          s1 = (if negative then tl s else s);
          whole = takeWhile is_digit s1;
          s2 = dropWhile is_digit s1;
          has_fraction = (s2 \<noteq> [] \<and> hd s2 = CHR ''.'');
          fraction = (if has_fraction then takeWhile is_digit (tl s2) else []);
          s3 = (if has_fraction then dropWhile is_digit (tl s2) else s2);
          has_exponent = (s3 \<noteq> [] \<and> (hd s3 = CHR ''e'' \<or> hd s3 = CHR ''E''));
          s4 = (if has_exponent then tl s3 else s3);
          has_sign = (has_exponent \<and> s4 \<noteq> [] \<and> (hd s4 = CHR ''+'' \<or> hd s4 = CHR ''-''));
          exp_negative = (has_sign \<and> hd s4 = CHR ''-'');
          s5 = (if has_sign then tl s4 else s4);
          exponent = (if has_exponent then takeWhile is_digit s5 else []);
          s6 = (if has_exponent then dropWhile is_digit s5 else s3)
      in if whole = [] \<or> (1 < length whole \<and> hd whole = CHR ''0'') then None
         else if has_fraction \<and> fraction = [] then None
         else if has_exponent \<and> exponent = [] then None
         else Some (number_value negative whole fraction exp_negative exponent, s6))"

definition literal_token :: "string \<Rightarrow> (jv \<times> string) option" where
  "literal_token s =
     (if startsWith s ''true'' then Some (JBool True, drop 4 s)
      else if startsWith s ''false'' then Some (JBool False, drop 5 s)
      else if startsWith s ''null'' then Some (JNull, drop 4 s)
      else None)"

fun set_member :: "string \<Rightarrow> jv \<Rightarrow> (string \<times> jv) list \<Rightarrow> (string \<times> jv) list" where
  "set_member k v [] = [(k, v)]"
| "set_member k v ((k', v') # kvs) =
     (if k = k' then (k, v) # kvs else (k', v') # set_member k v kvs)"

fun parse_value :: "nat \<Rightarrow> string \<Rightarrow> (jv \<times> string) option"
  and parse_elements :: "nat \<Rightarrow> jv list \<Rightarrow> string \<Rightarrow> (jv \<times> string) option"
  and parse_members :: "nat \<Rightarrow> (string \<times> jv) list \<Rightarrow> string \<Rightarrow> (jv \<times> string) option" where
  "parse_value 0 s = None"
| "parse_value (Suc n) [] = None"
| "parse_value (Suc n) (c # cs) =
     (if c = CHR ''{'' then
        (case dropWhile json_ws cs of
           [] \<Rightarrow> None
         | d # r \<Rightarrow> if d = CHR ''}'' then Some (JObj [], r) else parse_members n [] (d # r))
      else if c = CHR ''['' then
        (case dropWhile json_ws cs of
           [] \<Rightarrow> None
         | d # r \<Rightarrow> if d = CHR '']'' then Some (JArr [], r) else parse_elements n [] (d # r))
      else if c = CHR 0x22 then map_option (\<lambda>(str, rest). (JStr str, rest)) (string_body cs)
      else if c = CHR ''-'' \<or> is_digit c then
        map_option (\<lambda>(x, rest). (JNum x, rest)) (number_token (c # cs))
      else literal_token (c # cs))"
| "parse_elements 0 acc s = None"
| "parse_elements (Suc n) acc s =
     (case parse_value n s of
        None \<Rightarrow> None
      | Some (v, r) \<Rightarrow>
          (case dropWhile json_ws r of
             [] \<Rightarrow> None
           | d # r' \<Rightarrow>
               if d = CHR '','' then parse_elements n (acc @ [v]) (dropWhile json_ws r')
               else if d = CHR '']'' then Some (JArr (acc @ [v]), r')
               else None))"
| "parse_members 0 acc s = None"
| "parse_members (Suc n) acc [] = None"
| "parse_members (Suc n) acc (q # cs) =
     (if q \<noteq> CHR 0x22 then None
      else (case string_body cs of
              None \<Rightarrow> None
            | Some (k, r) \<Rightarrow>
                (case dropWhile json_ws r of
                   [] \<Rightarrow> None
                 | d # r1 \<Rightarrow>
                     if d \<noteq> CHR '':'' then None
                     else (case parse_value n (dropWhile json_ws r1) of
                             None \<Rightarrow> None
                           | Some (v, r2) \<Rightarrow>
                               (case dropWhile json_ws r2 of
                                  [] \<Rightarrow> None
                                | d' # r3 \<Rightarrow>
                                    if d' = CHR '','' then
                                      parse_members n (set_member k v acc) (dropWhile json_ws r3)
                                    else if d' = CHR ''}'' then
                                      Some (JObj (set_member k v acc), r3)
                                    else None)))))"

definition json_parse :: "string \<Rightarrow> jv option" where
  "json_parse s =
     (let t = json_trim s
      in case parse_value (Suc (length t)) t of
           Some (v, []) \<Rightarrow> Some v
         | _ \<Rightarrow> None)"

text \<open>
  \<open>consumes s r P\<close>: \<open>r\<close> is what is left of \<open>s\<close> after a non-empty prefix whose last
  character satisfies \<open>P\<close>.
\<close>

definition consumes :: "string \<Rightarrow> string \<Rightarrow> (char \<Rightarrow> bool) \<Rightarrow> bool" where
  "consumes s r P = (\<exists>pre. s = pre @ r \<and> pre \<noteq> [] \<and> P (last pre))"

section \<open>Example answers\<close>

text \<open>
  The answer of the end-to-end scenario of the specification, one coffee line and no
  \<open>totalItems\<close>, and two malformed answers.
\<close>

definition coffee_text :: string where
  \<open>coffee_text =
     ''{"items":[{"name":"Coffee","quantity":"2","price":"6.00"}],"total":"6.00","currency":"USD"}''\<close>

definition coffee_item :: jv where
  "coffee_item = JObj [(''name'', JStr ''Coffee''), (''quantity'', JStr ''2''), (''price'', JStr ''6.00'')]"

definition coffee_payload :: jv where
  "coffee_payload =
     JObj [(''items'', JArr [coffee_item]), (''total'', JStr ''6.00''), (''currency'', JStr ''USD'')]"

definition null_item_text :: string where
  \<open>null_item_text = ''{"items":[null]}''\<close>

definition null_item_payload :: jv where
  "null_item_payload = JObj [(''items'', JArr [JNull])]"

definition valid_then :: "string \<Rightarrow> env" where
  "valid_then answer =
     scripted_env (Returns (Some ''VALID_RECEIPT'')) (Returns (Some answer)) json_parse"

definition coffee_receipt :: ReceiptData where
  "coffee_receipt =
     \<lparr>id' = ''receipt_1700000000000_4fzyo82mv'',
      storeName = JNull, address = JNull, phone = JNull, date = JNull,
      items = [coffee_item],
      total' = JStr ''6.00'', tax = JNull,
      timestamp = ''2023-11-14T22:13:20.000Z'',
      fileName = ''photo.png'',
      totalItems = JNull,
      currency = JStr ''USD'',
      products = [JObj [(''name'', JStr ''Coffee''), (''price'', JStr ''6.00''),
                        (''quantity'', JStr ''2''), (''total'', JStr ''6.00'')]],
      total_spending = JStr ''6.00'',
      extraction_date = ''2023-11-14T22:13:20.000Z'',
      file_name = ''photo.png''\<rparr>"


section \<open>A platform to run \<open>formatCurrency\<close> on\<close>

text \<open>
  What a text with exactly two fraction digits is: read from its end, after the characters
  that follow the number (a currency sign behind it, say), come two digits, a decimal
  separator (a point or a comma) and a digit of the integer part.
\<close>

definition two_fraction_digits :: "string \<Rightarrow> bool" where
  "two_fraction_digits s =
     (case dropWhile (\<lambda>c. \<not> is_digit c) (rev s) of
        d2 # d1 # sep # d0 # rest \<Rightarrow>
          is_digit d1 \<and> (sep = CHR ''.'' \<or> sep = CHR '','') \<and> is_digit d0
      | _ \<Rightarrow> False)"

text \<open>
  The formatters of a platform print the number \<open>x\<close> with two fraction digits: every
  formatter its constructor gives for the two bounds 2 does.
\<close>

definition prints_two_digits :: "'n intl \<Rightarrow> 'n \<Rightarrow> bool" where
  "prints_two_digits P x =
     (\<forall>locale code format.
        NumberFormat P locale (CurrencyStyle code 2 2) = Returns format \<longrightarrow>
        two_fraction_digits (format x))"

text \<open>
  A platform to evaluate \<open>formatCurrency\<close> on, after ECMA-262 and ECMA-402 for an engine
  that carries the locale data of \<open>en-US\<close> alone (it resolves every locale tag to it).

  \<^item> A number is \<open>NaN\<close>, one of the two infinities or a rational: the rounding of a decimal
    text to a double and the negative zero are not modelled.
  \<^item> \<open>parseFloat\<close> skips leading white space and reads the longest prefix that is a
    decimal literal: a sign, then \<open>Infinity\<close> or digits with an optional point, fraction
    and exponent; with no such prefix the result is \<open>NaN\<close>.
  \<^item> \<open>toUpperCase\<close> is the mapping of the table \<open>case_pairs\<close>.
  \<^item> The constructor throws a \<open>RangeError\<close> for a currency code that is not three ASCII
    letters, and for fraction-digit bounds above 100 or in the wrong order; the check of
    the locale tag is not modelled (\<open>formatCurrency\<close> passes the tags of its table and
    \<open>en-US\<close>).
  \<^item> \<open>format\<close> prints a minus sign for a negative number, the currency (\<open>$\<close> for USD;
    the code and a no-break space for any other code: the signs \<open>en-US\<close> has for some
    other currencies are not modelled), and the number rounded half away from zero to the
    upper bound of fraction digits, its integer part in groups of three, its trailing
    zeros dropped down to the lower bound. \<open>NaN\<close> is printed \<open>NaN\<close> and an infinity by
    the sign U+221E, written here as its three UTF-8 bytes.
\<close>

datatype jsnum = NaN | PosInfinity | NegInfinity | Finite rat

definition parseFloat_text :: "string \<Rightarrow> jsnum" where
  "parseFloat_text s =
     (let t = dropWhile js_ws s;
          negative = (t \<noteq> [] \<and> hd t = CHR ''-'');
          has_sign = (t \<noteq> [] \<and> (hd t = CHR ''+'' \<or> hd t = CHR ''-''));
          s1 = (if has_sign then tl t else t);
          whole = takeWhile is_digit s1;
          s2 = dropWhile is_digit s1;
          has_point = (s2 \<noteq> [] \<and> hd s2 = CHR ''.'');
          fraction = (if has_point then takeWhile is_digit (tl s2) else []);
          s3 = (if has_point then dropWhile is_digit (tl s2) else s2);
          has_e = (s3 \<noteq> [] \<and> (hd s3 = CHR ''e'' \<or> hd s3 = CHR ''E''));
          s4 = (if has_e then tl s3 else s3);
          has_exp_sign = (has_e \<and> s4 \<noteq> [] \<and> (hd s4 = CHR ''+'' \<or> hd s4 = CHR ''-''));
          exp_negative = (has_exp_sign \<and> hd s4 = CHR ''-'');
          s5 = (if has_exp_sign then tl s4 else s4);
          exponent = (if has_e then takeWhile is_digit s5 else [])
      in if startsWith s1 ''Infinity'' then (if negative then NegInfinity else PosInfinity)
         else if whole = [] \<and> fraction = [] then NaN
         else Finite (number_value negative whole fraction exp_negative exponent))"

definition digit_char :: "nat \<Rightarrow> char" where
  "digit_char n = ''0123456789'' ! (n mod 10)"

fun decimal_digits :: "nat \<Rightarrow> string" where
  "decimal_digits n =
     (if n < 10 then [digit_char n] else decimal_digits (n div 10) @ [digit_char n])"

declare decimal_digits.simps [simp del]

fun fraction_digits :: "nat \<Rightarrow> nat \<Rightarrow> string" where
  "fraction_digits 0 m = []"
| "fraction_digits (Suc k) m = fraction_digits k (m div 10) @ [digit_char m]"

text \<open>
  On the digits in reverse: \<open>group3\<close> puts a comma after every third digit that has a
  digit behind it, \<open>drop_zeros n\<close> takes away up to \<open>n\<close> leading zeros.
\<close>

fun group3 :: "string \<Rightarrow> string" where
  "group3 (a # b # c # d # rest) = a # b # c # CHR '','' # group3 (d # rest)"
| "group3 ds = ds"

fun drop_zeros :: "nat \<Rightarrow> string \<Rightarrow> string" where
  "drop_zeros (Suc n) (c # cs) = (if c = CHR ''0'' then drop_zeros n cs else c # cs)"
| "drop_zeros n cs = cs"

definition number_text :: "nat \<Rightarrow> nat \<Rightarrow> rat \<Rightarrow> string" where
  "number_text lo hi q =
     (let scaled = nat \<lfloor>\<bar>q\<bar> * 10 ^ hi + 1 / 2\<rfloor>;
          whole = rev (group3 (rev (decimal_digits (scaled div 10 ^ hi))));
          fraction = rev (drop_zeros (hi - lo) (rev (fraction_digits hi (scaled mod 10 ^ hi))))
      in if fraction = [] then whole else whole @ ''.'' @ fraction)"

definition currency_sign :: "string \<Rightarrow> string" where
  "currency_sign code = (if code = ''USD'' then ''$'' else code @ [CHR 0xA0])"

definition infinity_sign :: string where
  "infinity_sign = [CHR 0xE2, CHR 0x88, CHR 0x9E]"

definition format_en_US :: "string \<Rightarrow> nat \<Rightarrow> nat \<Rightarrow> jsnum \<Rightarrow> string" where
  "format_en_US code lo hi x =
     (case x of
        NaN \<Rightarrow> currency_sign code @ ''NaN''
      | PosInfinity \<Rightarrow> currency_sign code @ infinity_sign
      | NegInfinity \<Rightarrow> ''-'' @ currency_sign code @ infinity_sign
      | Finite q \<Rightarrow> (if q < 0 then ''-'' else []) @ currency_sign code @ number_text lo hi q)"

definition ascii_letter :: "char \<Rightarrow> bool" where
  "ascii_letter c = (c \<in> set ''ABCDEFGHIJKLMNOPQRSTUVWXYZabcdefghijklmnopqrstuvwxyz'')"

definition well_formed_code :: "string \<Rightarrow> bool" where
  "well_formed_code code = (length code = 3 \<and> list_all ascii_letter code)"

definition NumberFormat_en_US :: "string \<Rightarrow> NumberFormatOptions \<Rightarrow> (jsnum \<Rightarrow> string) outcome" where
  "NumberFormat_en_US locale options =
     (case options of
        CurrencyStyle code lo hi \<Rightarrow>
          if \<not> well_formed_code code then Throws (ErrorObj (''Invalid currency code : '' @ code))
          else if 100 < lo then Throws (ErrorObj ''minimumFractionDigits value is out of range.'')
          else if 100 < hi \<or> hi < lo
            then Throws (ErrorObj ''maximumFractionDigits value is out of range.'')
          else Returns (format_en_US (map canonicalize code) lo hi))"

definition reference_intl :: "jsnum intl" where
  "reference_intl =
     \<lparr>parseFloat = parseFloat_text,
      isNaN = (\<lambda>x. x = NaN),
      toUpperCase = map canonicalize,
      NumberFormat = NumberFormat_en_US\<rparr>"
section \<open>Facts about strings and regular expressions\<close>

lemma str_includes_iff: "str_includes s w = (\<exists>i\<le>length s. startsWith (drop i s) w)"
proof (induction s)
  case Nil
  then show ?case by (auto simp: startsWith_def)
next
  case (Cons c cs)
  have "(\<exists>i\<le>length (c # cs). startsWith (drop i (c # cs)) w) =
        (startsWith (c # cs) w \<or> (\<exists>i\<le>length cs. startsWith (drop i cs) w))"
  proof
    assume "\<exists>i\<le>length (c # cs). startsWith (drop i (c # cs)) w"
    then obtain i where i: "i \<le> length (c # cs)" "startsWith (drop i (c # cs)) w" by blast
    show "startsWith (c # cs) w \<or> (\<exists>i\<le>length cs. startsWith (drop i cs) w)"
    proof (cases i)
      case 0
      with i show ?thesis by simp
    next
      case (Suc j)
      with i show ?thesis by auto
    qed
  next
    assume "startsWith (c # cs) w \<or> (\<exists>i\<le>length cs. startsWith (drop i cs) w)"
    then show "\<exists>i\<le>length (c # cs). startsWith (drop i (c # cs)) w"
    proof
      assume "startsWith (c # cs) w"
      then have "startsWith (drop 0 (c # cs)) w" by simp
      then show ?thesis by blast
    next
      assume "\<exists>i\<le>length cs. startsWith (drop i cs) w"
      then obtain i where "i \<le> length cs" "startsWith (drop i cs) w" by blast
      then have "Suc i \<le> length (c # cs)" "startsWith (drop (Suc i) (c # cs)) w" by simp_all
      then show ?thesis by blast
    qed
  qed
  with Cons show ?case by simp
qed

lemma match_alt_iff: "(match_alt ic re s \<noteq> None) = (\<exists>a\<in>set re. match_here ic a s \<noteq> None)"
  by (induction re) (auto split: option.splits)

lemma regex_exec_iff:
  "(regex_exec ic re s \<noteq> None) = (\<exists>i\<le>length s. match_alt ic re (drop i s) \<noteq> None)"
proof (induction s)
  case Nil
  then show ?case by simp
next
  case (Cons c cs)
  have "(\<exists>i\<le>length (c # cs). match_alt ic re (drop i (c # cs)) \<noteq> None) =
        (match_alt ic re (c # cs) \<noteq> None \<or> (\<exists>i\<le>length cs. match_alt ic re (drop i cs) \<noteq> None))"
  proof
    assume "\<exists>i\<le>length (c # cs). match_alt ic re (drop i (c # cs)) \<noteq> None"
    then obtain i where i: "i \<le> length (c # cs)" "match_alt ic re (drop i (c # cs)) \<noteq> None"
      by blast
    show "match_alt ic re (c # cs) \<noteq> None \<or> (\<exists>i\<le>length cs. match_alt ic re (drop i cs) \<noteq> None)"
    proof (cases i)
      case 0
      with i show ?thesis by simp
    next
      case (Suc j)
      with i show ?thesis by auto
    qed
  next
    assume "match_alt ic re (c # cs) \<noteq> None \<or> (\<exists>i\<le>length cs. match_alt ic re (drop i cs) \<noteq> None)"
    then show "\<exists>i\<le>length (c # cs). match_alt ic re (drop i (c # cs)) \<noteq> None"
    proof
      assume "match_alt ic re (c # cs) \<noteq> None"
      then have "match_alt ic re (drop 0 (c # cs)) \<noteq> None" by simp
      then show ?thesis by blast
    next
      assume "\<exists>i\<le>length cs. match_alt ic re (drop i cs) \<noteq> None"
      then obtain i where "i \<le> length cs" "match_alt ic re (drop i cs) \<noteq> None" by blast
      then have "Suc i \<le> length (c # cs)" "match_alt ic re (drop (Suc i) (c # cs)) \<noteq> None"
        by simp_all
      then show ?thesis by blast
    qed
  qed
  with Cons show ?case by (auto split: option.splits)
qed

lemma match_here_lits: "(match_here False (lits w) s \<noteq> None) = startsWith s w"
proof (induction w arbitrary: s)
  case Nil
  then show ?case by (simp add: lits_def startsWith_def)
next
  case (Cons p w)
  then show ?case
    by (cases s) (auto simp: lits_def startsWith_def char_matches_def)
qed

lemma match_here_lits_space:
  "(match_here False (lits w @ [Space]) s \<noteq> None) = (\<exists>c. js_ws c \<and> startsWith s (w @ [c]))"
proof (induction w arbitrary: s)
  case Nil
  then show ?case by (cases s) (auto simp: lits_def startsWith_def)
next
  case (Cons p w)
  then show ?case
    by (cases s) (auto simp: lits_def startsWith_def char_matches_def)
qed

lemma regex_test_iff:
  "regex_test ic re s = (\<exists>a\<in>set re. \<exists>i\<le>length s. match_here ic a (drop i s) \<noteq> None)"
  unfolding regex_test_def regex_exec_iff match_alt_iff by blast


lemma startsWith_iff: "startsWith s w = (\<exists>b. s = w @ b)"
proof
  assume "startsWith s w"
  then have "s = w @ drop (length w) s"
    by (metis startsWith_def append_take_drop_id)
  then show "\<exists>b. s = w @ b" ..
next
  assume "\<exists>b. s = w @ b"
  then show "startsWith s w" by (auto simp: startsWith_def)
qed

lemma str_includes_sublist: "str_includes s w = (\<exists>a b. s = a @ w @ b)"
proof
  assume "str_includes s w"
  then obtain i where "i \<le> length s" "startsWith (drop i s) w"
    by (auto simp: str_includes_iff)
  then obtain b where "drop i s = w @ b" by (auto simp: startsWith_iff)
  then have "s = take i s @ w @ b" by (metis append_take_drop_id)
  then show "\<exists>a b. s = a @ w @ b" by blast
next
  assume "\<exists>a b. s = a @ w @ b"
  then obtain a b where s: "s = a @ w @ b" by blast
  then have "length a \<le> length s" "startsWith (drop (length a) s) w"
    by (simp_all add: startsWith_iff)
  then show "str_includes s w" unfolding str_includes_iff by blast
qed

lemma dropWhile_keeps:
  "p \<noteq> [] \<Longrightarrow> \<not> P (hd p) \<Longrightarrow> \<exists>a'. dropWhile P (a @ p @ b) = a' @ p @ b"
proof (induction a)
  case Nil
  then have "dropWhile P (p @ b) = [] @ p @ b" by (cases p) simp_all
  then show ?case by (metis append_Nil)
next
  case (Cons x a)
  show ?case
  proof (cases "P x")
    case True
    with Cons show ?thesis by simp
  next
    case False
    then have "dropWhile P ((x # a) @ p @ b) = (x # a) @ p @ b" by simp
    then show ?thesis by blast
  qed
qed

lemma trim_decomp: "\<exists>x y. t = x @ trim t @ y"
proof -
  let ?u = "dropWhile js_ws t"
  have "rev ?u = takeWhile js_ws (rev ?u) @ dropWhile js_ws (rev ?u)" by simp
  then have "?u = rev (dropWhile js_ws (rev ?u)) @ rev (takeWhile js_ws (rev ?u))"
    by (metis rev_append rev_rev_ident)
  then have "?u = trim t @ rev (takeWhile js_ws (rev ?u))" by (simp add: trim_def)
  moreover have "t = takeWhile js_ws t @ ?u" by simp
  ultimately show ?thesis by metis
qed

lemma str_includes_trim:
  assumes "p \<noteq> []" "\<not> js_ws (hd p)" "\<not> js_ws (last p)"
  shows "str_includes (trim t) p = str_includes t p"
proof
  assume "str_includes (trim t) p"
  then obtain a b where "trim t = a @ p @ b" by (auto simp: str_includes_sublist)
  moreover obtain x y where "t = x @ trim t @ y" using trim_decomp by blast
  ultimately have "t = (x @ a) @ p @ (b @ y)" by simp
  then show "str_includes t p" unfolding str_includes_sublist by blast
next
  assume "str_includes t p"
  then obtain a b where "t = a @ p @ b" by (auto simp: str_includes_sublist)
  then obtain a' where 1: "dropWhile js_ws t = a' @ p @ b"
    using dropWhile_keeps[of p js_ws a b] assms(1,2) by auto
  have "rev p \<noteq> []" "\<not> js_ws (hd (rev p))" using assms by (simp_all add: hd_rev)
  then obtain b' where "dropWhile js_ws (rev b @ rev p @ rev a') = b' @ rev p @ rev a'"
    using dropWhile_keeps[of "rev p" js_ws "rev b" "rev a'"] by auto
  with 1 have "trim t = a' @ p @ rev b'" by (simp add: trim_def)
  then show "str_includes (trim t) p" unfolding str_includes_sublist by blast
qed

lemma includes_trim_NOT_RECEIPT: "str_includes (trim t) ''NOT_RECEIPT'' = str_includes t ''NOT_RECEIPT''"
  by (rule str_includes_trim) (simp_all add: js_ws_def)

lemma includes_trim_VALID_RECEIPT: "str_includes (trim t) ''VALID_RECEIPT'' = str_includes t ''VALID_RECEIPT''"
  by (rule str_includes_trim) (simp_all add: js_ws_def)

section \<open>Case folding and the currency patterns\<close>

lemma distinct_uppers: "distinct (map fst case_pairs)"
  by (simp add: case_pairs_def)

lemma lowers_not_upper: "list_all (\<lambda>l. \<not> is_upper l) (map snd case_pairs)"
  by (simp add: case_pairs_def is_upper_def)

lemma toLowerCase_char_not_upper: "\<not> is_upper (toLowerCase_char c)"
proof (cases "map_of case_pairs c")
  case None
  then have "c \<notin> fst ` set case_pairs" by (simp add: map_of_eq_None_iff)
  with None show ?thesis by (simp add: toLowerCase_char_def is_upper_def)
next
  case (Some l)
  then have "(c, l) \<in> set case_pairs" by (rule map_of_SomeD)
  then have "l \<in> set (map snd case_pairs)" by force
  with lowers_not_upper have "\<not> is_upper l" by (auto simp: list_all_iff)
  with Some show ?thesis by (simp add: toLowerCase_char_def)
qed

lemma canonicalize_inj:
  assumes "\<not> is_upper p" "\<not> is_upper c" "canonicalize p = canonicalize c"
  shows "p = c"
proof -
  let ?T = "map (\<lambda>(u, l). (l, u)) case_pairs"
  have mem: "\<And>x u. map_of ?T x = Some u \<Longrightarrow> (u, x) \<in> set case_pairs"
    by (auto dest!: map_of_SomeD)
  have up: "\<And>x u. map_of ?T x = Some u \<Longrightarrow> is_upper u"
    using mem by (force simp: is_upper_def)
  show ?thesis
  proof (cases "map_of ?T p")
    case None
    note pn = this
    show ?thesis
    proof (cases "map_of ?T c")
      case None
      with pn assms(3) show ?thesis by (simp add: canonicalize_def)
    next
      case (Some u)
      with pn assms(3) have "p = u" by (simp add: canonicalize_def)
      with up[OF Some] assms(1) show ?thesis by simp
    qed
  next
    case (Some u)
    note ps = this
    show ?thesis
    proof (cases "map_of ?T c")
      case None
      with ps assms(3) have "c = u" by (simp add: canonicalize_def)
      with up[OF ps] assms(2) show ?thesis by simp
    next
      case (Some u')
      with ps assms(3) have "u = u'" by (simp add: canonicalize_def)
      with mem[OF ps] mem[OF Some] have "(u, p) \<in> set case_pairs" "(u, c) \<in> set case_pairs"
        by simp_all
      with distinct_uppers show ?thesis
        by (meson eq_key_imp_eq_value)
    qed
  qed
qed

lemma char_matches_lower:
  "\<not> is_upper p \<Longrightarrow> \<not> is_upper c \<Longrightarrow> char_matches ic p c = (p = c)"
  by (auto simp: char_matches_def dest: canonicalize_inj)

lemma match_here_lower:
  "list_all atom_lower as \<Longrightarrow> list_all (\<lambda>c. \<not> is_upper c) s \<Longrightarrow>
   match_here True as s = match_here False as s"
proof (induction True as s rule: match_here.induct)
qed (auto simp: atom_lower_def char_matches_lower split: option.splits)

lemma match_alt_lower:
  "list_all (list_all atom_lower) re \<Longrightarrow> list_all (\<lambda>c. \<not> is_upper c) s \<Longrightarrow>
   match_alt True re s = match_alt False re s"
  by (induction re) (auto simp: match_here_lower split: option.splits)

lemma regex_exec_lower:
  "list_all (list_all atom_lower) re \<Longrightarrow> list_all (\<lambda>c. \<not> is_upper c) s \<Longrightarrow>
   regex_exec True re s = regex_exec False re s"
  by (induction s) (auto simp: match_alt_lower split: option.splits)

lemma regex_test_lower:
  "list_all (list_all atom_lower) re \<Longrightarrow> list_all (\<lambda>c. \<not> is_upper c) s \<Longrightarrow>
   regex_test True re s = regex_test False re s"
  by (simp add: regex_test_def regex_exec_lower)


lemma toLowerCase_not_upper: "list_all (\<lambda>c. \<not> is_upper c) (toLowerCase s)"
  by (simp add: toLowerCase_def list_all_iff toLowerCase_char_not_upper)

lemma patterns_lower: "list_all (\<lambda>(re, cur). list_all (list_all atom_lower) re) patterns"
  by (simp add: patterns_def north_america_usd_def north_america_cad_def lits_def atom_lower_def is_upper_def case_pairs_def)


lemma first_match_lower:
  "list_all (\<lambda>(re, cur). list_all (list_all atom_lower) re) ps \<Longrightarrow>
   list_all (\<lambda>c. \<not> is_upper c) s \<Longrightarrow>
   first_match True ps s = first_match False ps s"
  by (induction ps) (auto simp: regex_test_lower)

lemma space_not_upper: "\<not> is_upper (CHR '' '')"
  by (simp add: is_upper_def case_pairs_def)

lemma lower_or_empty_not_upper: "list_all (\<lambda>c. \<not> is_upper c) (lower_or_empty a)"
  by (cases a) (simp_all add: lower_or_empty_def toLowerCase_not_upper)

lemma search_text_lower:
  "list_all (\<lambda>c. \<not> is_upper c) (lower_or_empty a @ CHR '' '' # lower_or_empty l)"
  by (simp add: lower_or_empty_not_upper space_not_upper)

lemma detect_lower:
  "\<not> (falsy_str a \<and> falsy_str l) \<Longrightarrow>
   detectCurrencyFromLocation a l =
     (case first_match False patterns (lower_or_empty a @ CHR '' '' # lower_or_empty l) of
        Some cur \<Rightarrow> cur | None \<Rightarrow> ''USD'')"
  using first_match_lower[OF patterns_lower search_text_lower, of a l]
  by (auto simp: detectCurrencyFromLocation_def Let_def)

section \<open>Currency detection: the first pattern shadows the second\<close>

lemma search_text_eq: "search_text a l = lower_or_empty a @ CHR '' '' # lower_or_empty l"
  by (simp add: search_text_def)

lemma str_includes_append: "str_includes s w \<Longrightarrow> str_includes (s @ t) w"
proof -
  assume "str_includes s w"
  then obtain i where i: "i \<le> length s" "startsWith (drop i s) w"
    by (auto simp: str_includes_iff)
  then have "length w \<le> length (drop i s)"
    by (metis startsWith_def length_take min.absorb_iff2 nat_le_linear take_all)
  with i have "startsWith (drop i (s @ t)) w" by (simp add: startsWith_def)
  moreover from i have "i \<le> length (s @ t)" by simp
  ultimately show ?thesis unfolding str_includes_iff by blast
qed

lemma str_includes_nonempty: "str_includes s w \<Longrightarrow> w \<noteq> [] \<Longrightarrow> s \<noteq> []"
  by (cases s) auto

lemma somewhere_lits:
  "(\<exists>i\<le>length s. match_here False (lits w) (drop i s) \<noteq> None) = str_includes s w"
  by (simp only: match_here_lits str_includes_iff)

lemma somewhere_lits_space:
  "(\<exists>i\<le>length s. match_here False (lits w @ [Space]) (drop i s) \<noteq> None) =
     (\<exists>c. js_ws c \<and> str_includes s (w @ [c]))"
  unfolding match_here_lits_space str_includes_iff by blast

lemma usd_pattern_iff:
  "regex_test False north_america_usd s =
     (str_includes s ''usa'' \<or> str_includes s ''united states'' \<or> str_includes s ''america'' \<or>
      (\<exists>c. js_ws c \<and> str_includes s (''us'' @ [c])) \<or> str_includes s ''u.s.'' \<or>
      str_includes s ''canada'' \<or> (\<exists>c. js_ws c \<and> str_includes s (''ca'' @ [c])))"
  unfolding regex_test_iff north_america_usd_def
  by (simp only: list.set bex_simps ball_simps Set.bex_simps somewhere_lits somewhere_lits_space simp_thms)

lemma cad_pattern_iff:
  "regex_test False north_america_cad s =
     (str_includes s ''canada'' \<or> str_includes s ''canadian'' \<or>
      (\<exists>c. js_ws c \<and> str_includes s (''ca'' @ [c])))"
  unfolding regex_test_iff north_america_cad_def
  by (simp only: list.set bex_simps somewhere_lits somewhere_lits_space simp_thms)

lemma first_match_currency: "first_match ic ps s = Some c \<Longrightarrow> c \<in> snd ` set ps"
  by (induction ps) (auto split: if_splits)

lemma patterns_split:
  "patterns = (north_america_usd, ''USD'') # (north_america_cad, ''CAD'') # drop 2 patterns"
  by (simp add: patterns_def)

lemma cad_only_second: "''CAD'' \<notin> snd ` set (drop 2 patterns)"
  by (simp add: patterns_def)

lemma first_match_cad:
  assumes "first_match False patterns s = Some ''CAD''"
  shows "\<not> regex_test False north_america_usd s \<and> regex_test False north_america_cad s"
proof -
  from assms have
    "first_match False ((north_america_usd, ''USD'') # (north_america_cad, ''CAD'') # drop 2 patterns) s
       = Some ''CAD''"
    using patterns_split by simp
  moreover have "first_match False (drop 2 patterns) s \<noteq> Some ''CAD''"
    using first_match_currency cad_only_second by blast
  ultimately show ?thesis by (auto split: if_splits)
qed


lemma usd_pattern_lower: "list_all (list_all atom_lower) north_america_usd"
  using patterns_lower by (subst (asm) patterns_split) simp

lemma first_match_usd:
  "regex_test False north_america_usd s \<Longrightarrow> first_match False patterns s = Some ''USD''"
  by (subst patterns_split) simp

lemma detect_usd_pattern:
  assumes "\<not> (falsy_str a \<and> falsy_str l)"
    and "regex_test False north_america_usd (search_text a l)"
  shows "detectCurrencyFromLocation a l = ''USD''"
  using assms first_match_usd[of "search_text a l"]
  by (simp add: detect_lower search_text_eq)

lemma detect_cad_only:
  assumes "detectCurrencyFromLocation a l = ''CAD''"
  shows "str_includes (search_text a l) ''canadian'' \<and>
         \<not> regex_test True north_america_usd (search_text a l)"
proof -
  have nf: "\<not> (falsy_str a \<and> falsy_str l)"
    using assms by (auto simp: detectCurrencyFromLocation_def)
  with assms have "first_match False patterns (search_text a l) = Some ''CAD''"
    by (auto simp: detect_lower search_text_eq split: option.splits)
  then have "\<not> regex_test False north_america_usd (search_text a l)"
    and "regex_test False north_america_cad (search_text a l)"
    using first_match_cad by blast+
  moreover have "regex_test True north_america_usd (search_text a l) =
                 regex_test False north_america_usd (search_text a l)"
    using regex_test_lower[OF usd_pattern_lower search_text_lower] by (simp add: search_text_eq)
  ultimately show ?thesis
    by (auto simp: usd_pattern_iff cad_pattern_iff)
qed

lemma canadian_tire: "detectCurrencyFromLocation (Some ''Canadian Tire'') None = ''CAD''"
proof -
  have low: "search_text (Some ''Canadian Tire'') None = ''canadian tire ''"
    by (simp add: search_text_def lower_or_empty_def toLowerCase_def toLowerCase_char_def case_pairs_def)
  have "first_match False patterns ''canadian tire '' = Some ''CAD''"
    by (subst patterns_split)
       (simp add: north_america_usd_def north_america_cad_def lits_def
          regex_test_def char_matches_def js_ws_def)
  with low show ?thesis
    by (simp add: detect_lower falsy_str_def search_text_eq)
qed

text \<open>
  C10. An addr whose lower-cased text contains \<open>canada\<close>, or \<open>ca\<close> followed by a
  white-space character, is detected as USD and never as CAD, whatever the language hint:
  the first pattern of the list already matches it. CAD is returned only for a search text
  that contains \<open>canadian\<close> and that the first pattern does not match, as for the
  addr \<open>Canadian Tire\<close>.
\<close>

theorem canada_shadowed_by_usd:
  "((str_includes (toLowerCase addr) ''canada'' \<or>
     (\<exists>c. js_ws c \<and> str_includes (toLowerCase addr) (''ca'' @ [c]))) \<longrightarrow>
      detectCurrencyFromLocation (Some addr) language = ''USD'' \<and>
      detectCurrencyFromLocation (Some addr) language \<noteq> ''CAD'') \<and>
   (detectCurrencyFromLocation a l = ''CAD'' \<longrightarrow>
      str_includes (search_text a l) ''canadian'' \<and>
      \<not> regex_test True north_america_usd (search_text a l)) \<and>
   detectCurrencyFromLocation (Some ''Canadian Tire'') None = ''CAD''"
proof (intro conjI impI)
  assume h: "str_includes (toLowerCase addr) ''canada'' \<or>
     (\<exists>c. js_ws c \<and> str_includes (toLowerCase addr) (''ca'' @ [c]))"
  then have ne: "toLowerCase addr \<noteq> []"
    using str_includes_nonempty by fastforce
  then have nf: "\<not> (falsy_str (Some addr) \<and> falsy_str language)"
    by (auto simp: falsy_str_def toLowerCase_def)
  have st: "search_text (Some addr) language =
            toLowerCase addr @ ('' '' @ lower_or_empty language)"
    by (simp add: search_text_def lower_or_empty_def)
  from h have "str_includes (search_text (Some addr) language) ''canada'' \<or>
     (\<exists>c. js_ws c \<and> str_includes (search_text (Some addr) language) (''ca'' @ [c]))"
    unfolding st using str_includes_append by blast
  then have "regex_test False north_america_usd (search_text (Some addr) language)"
    unfolding usd_pattern_iff by blast
  with nf show usd: "detectCurrencyFromLocation (Some addr) language = ''USD''"
    by (rule detect_usd_pattern)
  then show "detectCurrencyFromLocation (Some addr) language \<noteq> ''CAD''" by simp
next
  assume "detectCurrencyFromLocation a l = ''CAD''"
  then show "str_includes (search_text a l) ''canadian''"
    and "\<not> regex_test True north_america_usd (search_text a l)"
    using detect_cad_only by blast+
next
  show "detectCurrencyFromLocation (Some ''Canadian Tire'') None = ''CAD''"
    by (rule canadian_tire)
qed

theorem canada_shadowed_by_usd_witness:
  "str_includes (toLowerCase ''Toronto, Canada'') ''canada'' \<and>
   detectCurrencyFromLocation (Some ''Toronto, Canada'') None = ''USD'' \<and>
   detectCurrencyFromLocation (Some ''Canadian Tire'') None = ''CAD'' \<and>
   str_includes (search_text (Some ''Canadian Tire'') None) ''canadian''"
proof -
  have h: "str_includes (toLowerCase ''Toronto, Canada'') ''canada''"
    by (simp add: toLowerCase_def toLowerCase_char_def case_pairs_def startsWith_def)
  have c: "detectCurrencyFromLocation (Some ''Canadian Tire'') None = ''CAD''"
    using canada_shadowed_by_usd by blast
  show ?thesis
    using h c canada_shadowed_by_usd[of "''Toronto, Canada''" None "Some ''Canadian Tire''" None]
    by blast
qed

text \<open>
  C7. The addr \<open>123 Main St, Tokyo, Japan\<close> is detected as JPY, and with neither an
  addr nor a language hint the result is the default USD.
\<close>

theorem detectCurrencyFromLocation_examples:
  "detectCurrencyFromLocation (Some ''123 Main St, Tokyo, Japan'') None = ''JPY'' \<and>
   detectCurrencyFromLocation None None = ''USD''"
proof -
  have low: "lower_or_empty (Some ''123 Main St, Tokyo, Japan'') = ''123 main st, tokyo, japan''"
    by (simp add: lower_or_empty_def toLowerCase_def toLowerCase_char_def case_pairs_def)
  have "first_match False patterns ''123 main st, tokyo, japan '' = Some ''JPY''"
    by (simp add: patterns_def north_america_usd_def north_america_cad_def lits_def
        regex_test_def char_matches_def js_ws_def)
  with low have "detectCurrencyFromLocation (Some ''123 Main St, Tokyo, Japan'') None = ''JPY''"
    by (simp add: detect_lower falsy_str_def lower_or_empty_def)
  moreover have "detectCurrencyFromLocation None None = ''USD''"
    by (simp add: detectCurrencyFromLocation_def falsy_str_def)
  ultimately show ?thesis by simp
qed

section \<open>The history cap\<close>

lemma reducer_addition_history:
  "\<not> removes_entries a \<Longrightarrow>
   history (fst (reducer app a)) =
     (if added_by (fst app) a = [] then history (fst app)
      else take 10 (added_by (fst app) a @ history (fst app)))"
  by (cases app; cases a)
     (auto simp: removes_entries_def added_by_def Let_def numeral_eq_Suc split: option.splits)

lemma take_take_append: "take n (xs @ take n ys) = take n (xs @ ys)"
  by (simp add: min.absorb1)

lemma additions_history:
  "list_all (\<lambda>a. \<not> removes_entries a) acts \<Longrightarrow>
   history (fst (dispatch_all app acts)) =
     (if additions app acts = [] then history (fst app)
      else take 10 (additions app acts @ history (fst app)))"
proof (induction acts arbitrary: app)
  case Nil
  then show ?case by (simp add: dispatch_all_def)
next
  case (Cons a acts)
  then have a: "\<not> removes_entries a" and rest: "list_all (\<lambda>a. \<not> removes_entries a) acts"
    by simp_all
  have ih: "history (fst (dispatch_all (reducer app a) acts)) =
     (if additions (reducer app a) acts = [] then history (fst (reducer app a))
      else take 10 (additions (reducer app a) acts @ history (fst (reducer app a))))"
    using Cons.IH[OF rest] .
  have step: "dispatch_all app (a # acts) = dispatch_all (reducer app a) acts"
    by (simp add: dispatch_all_def)
  show ?case
  proof (cases "added_by (fst app) a = []")
    case True
    then show ?thesis
      using ih reducer_addition_history[OF a, of app] by (simp add: step)
  next
    case False
    note ne = this
    show ?thesis
    proof (cases "additions (reducer app a) acts = []")
      case True
      then show ?thesis
        using ih ne reducer_addition_history[OF a, of app] by (simp add: step)
    next
      case False
      have "take 10 (additions (reducer app a) acts @ take 10 (added_by (fst app) a @ history (fst app)))
            = take 10 (additions (reducer app a) acts @ added_by (fst app) a @ history (fst app))"
        by (rule take_take_append)
      then show ?thesis
        using ih ne False reducer_addition_history[OF a, of app] by (simp add: step)
    qed
  qed
qed

lemma reducer_keeps_cap:
  "length (history (fst app)) \<le> 10 \<Longrightarrow> length (history (fst (reducer app a))) \<le> 10"
proof (cases app)
  case (Pair s st)
  assume "length (history (fst app)) \<le> 10"
  with Pair have h: "length (history s) \<le> 10" by simp
  have "length (filter P (history s)) \<le> 10" for P
    using h length_filter_le[of P "history s"] by linarith
  with Pair h show ?thesis
    by (cases a) (auto simp: Let_def split: option.splits)
qed

lemma dispatch_all_keeps_cap:
  "length (history (fst app)) \<le> 10 \<Longrightarrow> length (history (fst (dispatch_all app acts))) \<le> 10"
  unfolding dispatch_all_def
  by (induction acts arbitrary: app) (simp_all add: reducer_keeps_cap)

subsection \<open>The copy in storage\<close>

lemma reducer_writable: "writable (snd (reducer app a)) = writable (snd app)"
  by (cases app; cases a) (auto simp: saveHistoryToStorage_def Let_def split: option.splits)

lemma dispatch_all_writable: "writable (snd (dispatch_all app acts)) = writable (snd app)"
  unfolding dispatch_all_def
  by (induction acts arbitrary: app) (simp_all add: reducer_writable)

lemma reducer_keeps_copy:
  "writable (snd app) \<Longrightarrow> stored (snd app) = Some (history (fst app)) \<Longrightarrow>
   stored (snd (reducer app a)) = Some (history (fst (reducer app a)))"
  by (cases app; cases a) (auto simp: saveHistoryToStorage_def Let_def split: option.splits)

lemma dispatch_all_keeps_copy:
  "writable (snd app) \<Longrightarrow> stored (snd app) = Some (history (fst app)) \<Longrightarrow>
   stored (snd (dispatch_all app acts)) = Some (history (fst (dispatch_all app acts)))"
  unfolding dispatch_all_def
  by (induction acts arbitrary: app) (simp_all add: reducer_keeps_copy reducer_writable)

lemma addition_writes_copy:
  "writable (snd app) \<Longrightarrow> added_by (fst app) a \<noteq> [] \<Longrightarrow>
   stored (snd (reducer app a)) = Some (history (fst (reducer app a)))"
  by (cases app; cases a)
     (auto simp: added_by_def saveHistoryToStorage_def Let_def split: option.splits)

lemma additions_write_copy:
  "writable (snd app) \<Longrightarrow> additions app acts \<noteq> [] \<Longrightarrow>
   stored (snd (dispatch_all app acts)) = Some (history (fst (dispatch_all app acts)))"
proof (induction acts arbitrary: app)
  case Nil
  then show ?case by simp
next
  case (Cons a acts)
  have step: "dispatch_all app (a # acts) = dispatch_all (reducer app a) acts"
    by (simp add: dispatch_all_def)
  have w: "writable (snd (reducer app a))" using Cons.prems(1) by (simp add: reducer_writable)
  show ?case
  proof (cases "additions (reducer app a) acts = []")
    case False
    with w show ?thesis unfolding step by (rule Cons.IH)
  next
    case True
    with Cons.prems(2) have "added_by (fst app) a \<noteq> []" by simp
    with Cons.prems(1) have "stored (snd (reducer app a)) = Some (history (fst (reducer app a)))"
      by (rule addition_writes_copy)
    with w show ?thesis unfolding step by (rule dispatch_all_keeps_copy)
  qed
qed

lemma unwritable_reducer:
  "\<not> writable (snd app) \<Longrightarrow> snd (reducer app a) = snd app"
  by (cases app; cases a) (auto simp: saveHistoryToStorage_def Let_def split: option.splits)

lemma unwritable_storage_unchanged:
  "\<not> writable (snd app) \<Longrightarrow> snd (dispatch_all app acts) = snd app"
  unfolding dispatch_all_def
  by (induction acts arbitrary: app) (simp_all add: unwritable_reducer)

lemma eleven_additions:
  "additions app
     (concat (map successful_run (map receipt_named
        [''a'', ''b'', ''c'', ''d'', ''e'', ''f'', ''g'', ''h'', ''i'', ''j'', ''k'']))) =
   map receipt_named [''k'', ''j'', ''i'', ''h'', ''g'', ''f'', ''e'', ''d'', ''c'', ''b'', ''a'']"
  by (simp add: successful_run_def added_by_def)

lemma eleven_runs_keep_entries:
  "list_all (\<lambda>a. \<not> removes_entries a)
     (concat (map successful_run (map receipt_named
        [''a'', ''b'', ''c'', ''d'', ''e'', ''f'', ''g'', ''h'', ''i'', ''j'', ''k''])))"
  by (simp add: successful_run_def removes_entries_def)

text \<open>
  C2, as the code has it. Along any run of actions that take no entry out (successful
  extractions with their \<open>pending\<close> and progress actions, \<open>saveToHistory\<close>, and the
  like), the history of the state has at most 10 entries as soon as one record has been
  added, and whenever it had at most 10 before; after more than 10 additions it has
  exactly 10 entries, the 10 records added last, the newest first. The list in storage is
  that same list after any addition when \<open>setItem\<close> succeeds; when it fails, the failure
  is swallowed and the list in storage stays what it was.
\<close>

theorem history_cap:
  assumes "list_all (\<lambda>a. \<not> removes_entries a) acts"
  shows "(additions app acts \<noteq> [] \<longrightarrow> length (history (fst (dispatch_all app acts))) \<le> 10) \<and>
         (length (history (fst app)) \<le> 10 \<longrightarrow> length (history (fst (dispatch_all app acts))) \<le> 10) \<and>
         (10 < length (additions app acts) \<longrightarrow>
            length (history (fst (dispatch_all app acts))) = 10 \<and>
            history (fst (dispatch_all app acts)) = take 10 (additions app acts)) \<and>
         (writable (snd app) \<and> additions app acts \<noteq> [] \<longrightarrow>
            stored (snd (dispatch_all app acts)) = Some (history (fst (dispatch_all app acts)))) \<and>
         (\<not> writable (snd app) \<longrightarrow> stored (snd (dispatch_all app acts)) = stored (snd app))"
  using additions_history[OF assms, of app] additions_write_copy[of app acts]
    unwritable_storage_unchanged[of app acts]
  by auto

theorem history_cap_witness:
  "list_all (\<lambda>a. \<not> removes_entries a)
     (concat (map successful_run (map receipt_named
        [''a'', ''b'', ''c'', ''d'', ''e'', ''f'', ''g'', ''h'', ''i'', ''j'', ''k'']))) \<and>
   writable (snd (idle_state, \<lparr>stored = None, writable = True\<rparr>)) \<and>
   history (fst (dispatch_all (idle_state, \<lparr>stored = None, writable = True\<rparr>)
      (concat (map successful_run (map receipt_named
         [''a'', ''b'', ''c'', ''d'', ''e'', ''f'', ''g'', ''h'', ''i'', ''j'', ''k''])))))
     = map receipt_named [''k'', ''j'', ''i'', ''h'', ''g'', ''f'', ''e'', ''d'', ''c'', ''b''] \<and>
   stored (snd (dispatch_all (idle_state, \<lparr>stored = None, writable = True\<rparr>)
      (concat (map successful_run (map receipt_named
         [''a'', ''b'', ''c'', ''d'', ''e'', ''f'', ''g'', ''h'', ''i'', ''j'', ''k''])))))
     = Some (map receipt_named [''k'', ''j'', ''i'', ''h'', ''g'', ''f'', ''e'', ''d'', ''c'', ''b''])"
proof -
  let ?acts = "concat (map successful_run (map receipt_named
        [''a'', ''b'', ''c'', ''d'', ''e'', ''f'', ''g'', ''h'', ''i'', ''j'', ''k'']))"
  let ?app = "(idle_state, \<lparr>stored = None, writable = True\<rparr>)"
  have w: "writable (snd ?app)" by simp
  have a: "additions ?app ?acts =
     map receipt_named [''k'', ''j'', ''i'', ''h'', ''g'', ''f'', ''e'', ''d'', ''c'', ''b'', ''a'']"
    by (rule eleven_additions)
  have h: "history (fst (dispatch_all ?app ?acts))
     = map receipt_named [''k'', ''j'', ''i'', ''h'', ''g'', ''f'', ''e'', ''d'', ''c'', ''b'']"
    using a history_cap[OF eleven_runs_keep_entries, of ?app] by simp
  have s: "stored (snd (dispatch_all ?app ?acts)) = Some (history (fst (dispatch_all ?app ?acts)))"
    using a w history_cap[OF eleven_runs_keep_entries, of ?app] by simp
  show ?thesis using eleven_runs_keep_entries w h s by simp
qed

text \<open>
  With a storage that holds one record of an earlier session and refuses every write,
  eleven successful extractions leave the list in storage as it was, one entry long,
  while the history of the state holds the 10 records added last.
\<close>

theorem persisted_history_counterexample:
  "length (additions
      (idle_state\<lparr>history := [receipt_named ''z'']\<rparr>,
       \<lparr>stored = Some [receipt_named ''z''], writable = False\<rparr>)
      (concat (map successful_run (map receipt_named
         [''a'', ''b'', ''c'', ''d'', ''e'', ''f'', ''g'', ''h'', ''i'', ''j'', ''k''])))) = 11 \<and>
   stored (snd (dispatch_all
      (idle_state\<lparr>history := [receipt_named ''z'']\<rparr>,
       \<lparr>stored = Some [receipt_named ''z''], writable = False\<rparr>)
      (concat (map successful_run (map receipt_named
         [''a'', ''b'', ''c'', ''d'', ''e'', ''f'', ''g'', ''h'', ''i'', ''j'', ''k''])))))
     = Some [receipt_named ''z'']"
proof -
  let ?acts = "concat (map successful_run (map receipt_named
        [''a'', ''b'', ''c'', ''d'', ''e'', ''f'', ''g'', ''h'', ''i'', ''j'', ''k'']))"
  let ?app = "(idle_state\<lparr>history := [receipt_named ''z'']\<rparr>,
       \<lparr>stored = Some [receipt_named ''z''], writable = False\<rparr>)"
  have a: "length (additions ?app ?acts) = 11"
    unfolding eleven_additions by simp
  have "snd (dispatch_all ?app ?acts) = snd ?app"
    by (rule unwritable_storage_unchanged) simp
  then have s: "stored (snd (dispatch_all ?app ?acts)) = Some [receipt_named ''z'']" by simp
  show ?thesis using a s by (rule conjI)
qed

section \<open>A rejected extraction\<close>

lemma thunk_actions_shape:
  "extract_thunk e genAI file apiKey w = ((acts, g), w') \<Longrightarrow>
   (\<exists>m. acts = [ExtractPending, ExtractRejected m]) \<or>
   (\<exists>m. acts = [ExtractPending, UpdateProgress 25, ExtractRejected m]) \<or>
   (\<exists>m. acts = [ExtractPending, UpdateProgress 25, UpdateProgress 75, ExtractRejected m]) \<or>
   (\<exists>d. acts = [ExtractPending, UpdateProgress 25, UpdateProgress 75, UpdateProgress 100,
                 ExtractFulfilled d])"
  by (auto simp: extract_thunk_def split: outcome.splits prod.splits bool.splits option.splits if_splits)

text \<open>
  C9. A rejected extraction stores the error message, clears both loading flags and
  resets the progress, and leaves the history, \<open>currentExtraction\<close>, \<open>data\<close> and the
  storage as they were. The same holds from the state before an attempt to the state
  after it, whenever the thunk ends with \<open>rejected\<close>.
\<close>

theorem rejected_keeps_history:
  "(case reducer (s, st) (ExtractRejected msg) of
      (s', st') \<Rightarrow>
        error s' = Some msg \<and> isLoading s' = False \<and> isProcessing s' = False \<and> progress s' = 0 \<and>
        history s' = history s \<and> currentExtraction s' = currentExtraction s \<and>
        data s' = data s \<and> st' = st) \<and>
   (extract_thunk e genAI file apiKey w = ((acts, g), w') \<and> last acts = ExtractRejected msg \<longrightarrow>
      (case dispatch_all (s, st) acts of
         (s', st') \<Rightarrow>
           error s' = Some msg \<and> isLoading s' = False \<and> isProcessing s' = False \<and>
           progress s' = 0 \<and> history s' = history s \<and>
           currentExtraction s' = currentExtraction s \<and> data s' = data s \<and> st' = st))"
proof (intro conjI impI)
  show "case reducer (s, st) (ExtractRejected msg) of
      (s', st') \<Rightarrow>
        error s' = Some msg \<and> isLoading s' = False \<and> isProcessing s' = False \<and> progress s' = 0 \<and>
        history s' = history s \<and> currentExtraction s' = currentExtraction s \<and>
        data s' = data s \<and> st' = st"
    by simp
next
  assume h: "extract_thunk e genAI file apiKey w = ((acts, g), w') \<and> last acts = ExtractRejected msg"
  then have "acts = [ExtractPending, ExtractRejected msg] \<or>
     acts = [ExtractPending, UpdateProgress 25, ExtractRejected msg] \<or>
     acts = [ExtractPending, UpdateProgress 25, UpdateProgress 75, ExtractRejected msg]"
    using thunk_actions_shape[OF conjunct1[OF h]] by auto
  then show "case dispatch_all (s, st) acts of
         (s', st') \<Rightarrow>
           error s' = Some msg \<and> isLoading s' = False \<and> isProcessing s' = False \<and>
           progress s' = 0 \<and> history s' = history s \<and>
           currentExtraction s' = currentExtraction s \<and> data s' = data s \<and> st' = st"
    by (auto simp: dispatch_all_def)
qed

section \<open>The receipt service\<close>

lemmas io_defs = bind_io_def return_io_def throw_io_def catch_io_def lift_io_def

lemma validate_not_receipt:
  assumes "genAI \<noteq> None"
    and "readAsDataURL e (file_reads w) f = Returns url"
    and "generateContent e (length (model_calls w)) ValidationPrompt (second_part url) = Returns (Some t)"
    and "str_includes t ''NOT_RECEIPT''" and "\<not> str_includes t ''VALID_RECEIPT''"
  shows "validateReceiptImage e genAI f w =
     (Returns \<lparr>isValid = False,
        reason = Some ''This image does not appear to be a payment receipt. Please upload a receipt, invoice, or bill.''\<rparr>,
      w\<lparr>file_reads := Suc (file_reads w), model_calls := model_calls w @ [ValidationPrompt]\<rparr>)"
proof -
  have ne: "trim t \<noteq> []"
    using assms(4) includes_trim_NOT_RECEIPT[of t] by (auto simp: str_includes_sublist)
  show ?thesis
    using assms ne
    by (simp add: validateReceiptImage_def validateReceiptImage_try_def io_defs fileToBase64_def models_generateContent_def
        obind_def includes_trim_NOT_RECEIPT includes_trim_VALID_RECEIPT)
qed

text \<open>
  C1. When the service is initialised, the file is read and the model's answer to the
  validation prompt contains \<open>NOT_RECEIPT\<close> and not \<open>VALID_RECEIPT\<close>,
  \<open>extractReceiptData\<close> returns the failure whose message says that the image is not a
  receipt, and the run has issued exactly one model call, the validation one: the
  extraction prompt is never sent.
\<close>

theorem not_receipt_stops_before_extraction:
  assumes "genAI \<noteq> None"
    and "readAsDataURL e (file_reads w) f = Returns url"
    and "generateContent e (length (model_calls w)) ValidationPrompt (second_part url) = Returns (Some t)"
    and "str_includes t ''NOT_RECEIPT''" and "\<not> str_includes t ''VALID_RECEIPT''"
  shows "extractReceiptData e genAI f w =
     (Returns \<lparr>success = False, data = None,
        error = Some ''This image does not appear to be a payment receipt. Please upload a receipt, invoice, or bill.''\<rparr>,
      w\<lparr>file_reads := Suc (file_reads w), model_calls := model_calls w @ [ValidationPrompt]\<rparr>)"
  using assms(1) validate_not_receipt[OF assms]
  by (simp add: extractReceiptData_def extractReceiptData_try_def io_defs)

theorem not_receipt_stops_before_extraction_witness:
  "str_includes ''Answer: NOT_RECEIPT.'' ''NOT_RECEIPT'' \<and>
   \<not> str_includes ''Answer: NOT_RECEIPT.'' ''VALID_RECEIPT'' \<and>
   extractReceiptData (scripted_env (Returns (Some ''Answer: NOT_RECEIPT.'')) (Returns None) (\<lambda>s. None))
       (Some ''key'') photo fresh_world =
     (Returns \<lparr>success = False, data = None,
        error = Some ''This image does not appear to be a payment receipt. Please upload a receipt, invoice, or bill.''\<rparr>,
      \<lparr>file_reads = 1, model_calls = [ValidationPrompt]\<rparr>)"
proof -
  let ?e = "scripted_env (Returns (Some ''Answer: NOT_RECEIPT.'')) (Returns None) (\<lambda>s. None)"
  have 1: "Some ''key'' \<noteq> None" by simp
  have 2: "readAsDataURL ?e (file_reads fresh_world) photo = Returns ''data:image/png;base64,AAAA''"
    by (simp add: scripted_env_def)
  have 3: "generateContent ?e (length (model_calls fresh_world)) ValidationPrompt
             (second_part ''data:image/png;base64,AAAA'') = Returns (Some ''Answer: NOT_RECEIPT.'')"
    by (simp add: scripted_env_def fresh_world_def)
  have 4: "str_includes ''Answer: NOT_RECEIPT.'' ''NOT_RECEIPT''"
    by (simp add: startsWith_def)
  have 5: "\<not> str_includes ''Answer: NOT_RECEIPT.'' ''VALID_RECEIPT''"
    by (simp add: startsWith_def)
  show ?thesis
    using 4 5 not_receipt_stops_before_extraction[OF 1 2 3 4 5]
    by (simp add: fresh_world_def)
qed

lemma validateReceiptImage_returns:
  "\<exists>v w'. validateReceiptImage e genAI f w = (Returns v, w')"
  unfolding validateReceiptImage_def catch_io_def return_io_def
  by (auto split: prod.splits outcome.splits)

lemma extract_try_discriminated:
  "extractReceiptData_try e genAI f w = (Returns r, w') \<Longrightarrow> discriminated r"
  by (auto simp: extractReceiptData_try_def io_defs discriminated_def
      split: prod.splits outcome.splits if_splits option.splits)

lemma not_receipt_run:
  "extractReceiptData (scripted_env (Returns (Some ''NOT_RECEIPT'')) (Returns None) (\<lambda>s. None))
       (Some ''key'') photo fresh_world =
     (Returns \<lparr>success = False, data = None,
        error = Some ''This image does not appear to be a payment receipt. Please upload a receipt, invoice, or bill.''\<rparr>,
      \<lparr>file_reads = 1, model_calls = [ValidationPrompt]\<rparr>)"
  by (simp add: extractReceiptData_def extractReceiptData_try_def validateReceiptImage_def
      validateReceiptImage_try_def io_defs fileToBase64_def models_generateContent_def obind_def
      scripted_env_def fresh_world_def trim_def js_ws_def startsWith_def)

lemma not_receipt_thunk:
  "extract_thunk (scripted_env (Returns (Some ''NOT_RECEIPT'')) (Returns None) (\<lambda>s. None))
       None photo ''key'' fresh_world =
     (([ExtractPending, UpdateProgress 25, UpdateProgress 75,
        ExtractRejected ''This image does not appear to be a payment receipt. Please upload a receipt, invoice, or bill.''],
       Some ''key''),
      \<lparr>file_reads = 1, model_calls = [ValidationPrompt]\<rparr>)"
  by (simp add: extract_thunk_def initialize_def not_receipt_run)

theorem rejected_keeps_history_witness:
  "extract_thunk (scripted_env (Returns (Some ''NOT_RECEIPT'')) (Returns None) (\<lambda>s. None))
       None photo ''key'' fresh_world =
     (([ExtractPending, UpdateProgress 25, UpdateProgress 75,
        ExtractRejected ''This image does not appear to be a payment receipt. Please upload a receipt, invoice, or bill.''],
       Some ''key''),
      \<lparr>file_reads = 1, model_calls = [ValidationPrompt]\<rparr>) \<and>
   (case dispatch_all
           (idle_state\<lparr>history := [receipt_named ''old''],
              currentExtraction := Some (receipt_named ''old'')\<rparr>,
            \<lparr>stored = Some [receipt_named ''old''], writable = True\<rparr>)
           [ExtractPending, UpdateProgress 25, UpdateProgress 75,
            ExtractRejected ''This image does not appear to be a payment receipt. Please upload a receipt, invoice, or bill.''] of
      (s', st') \<Rightarrow>
        error s' = Some ''This image does not appear to be a payment receipt. Please upload a receipt, invoice, or bill.'' \<and>
        history s' = [receipt_named ''old''] \<and>
        currentExtraction s' = Some (receipt_named ''old'') \<and>
        st' = \<lparr>stored = Some [receipt_named ''old''], writable = True\<rparr>)"
  using not_receipt_thunk
    rejected_keeps_history[where s = "idle_state\<lparr>history := [receipt_named ''old''],
              currentExtraction := Some (receipt_named ''old'')\<rparr>"
      and st = "\<lparr>stored = Some [receipt_named ''old''], writable = True\<rparr>"
      and e = "scripted_env (Returns (Some ''NOT_RECEIPT'')) (Returns None) (\<lambda>s. None)"
      and genAI = None and apiKey = "''key''" and w = fresh_world
      and msg = "''This image does not appear to be a payment receipt. Please upload a receipt, invoice, or bill.''"
      and acts = "[ExtractPending, UpdateProgress 25, UpdateProgress 75,
        ExtractRejected ''This image does not appear to be a payment receipt. Please upload a receipt, invoice, or bill.'']"
      and g = "Some ''key''" and w' = "\<lparr>file_reads = 1, model_calls = [ValidationPrompt]\<rparr>"]
  by (auto split: prod.splits)

section \<open>The extraction stage\<close>

lemma extraction_stage:
  assumes "genAI \<noteq> None"
    and "validateReceiptImage e genAI f w = (Returns v, w1)" and "isValid v"
    and "readAsDataURL e (file_reads w1) f = Returns url"
    and "generateContent e (length (model_calls w1)) ExtractionPrompt (second_part url) = Returns (Some t)"
    and "t \<noteq> []"
  shows "extractReceiptData e genAI f w =
     (case obind (parse_response e t) (\<lambda>d.
             obind (validate_structure e d) (\<lambda>its. build_receipt e f d its)) of
        Returns r \<Rightarrow> Returns \<lparr>success = True, data = Some r, error = None\<rparr>
      | Throws err \<Rightarrow>
          Returns \<lparr>success = False, data = None,
            error = Some (case err of
                            ErrorObj message \<Rightarrow> message
                          | NonError \<Rightarrow> ''Unknown error occurred during extraction'')\<rparr>,
      w1\<lparr>file_reads := Suc (file_reads w1), model_calls := model_calls w1 @ [ExtractionPrompt]\<rparr>)"
  using assms
  by (auto simp: extractReceiptData_def extractReceiptData_try_def io_defs fileToBase64_def
      models_generateContent_def obind_def split: outcome.splits)

lemma validate_valid_receipt:
  assumes "genAI \<noteq> None"
    and "readAsDataURL e (file_reads w) f = Returns url"
    and "generateContent e (length (model_calls w)) ValidationPrompt (second_part url) = Returns (Some t)"
    and "str_includes t ''VALID_RECEIPT''"
  shows "validateReceiptImage e genAI f w =
     (Returns \<lparr>isValid = True, reason = None\<rparr>,
      w\<lparr>file_reads := Suc (file_reads w), model_calls := model_calls w @ [ValidationPrompt]\<rparr>)"
proof -
  have ne: "trim t \<noteq> []"
    using assms(4) includes_trim_VALID_RECEIPT[of t] by (auto simp: str_includes_sublist)
  show ?thesis
    using assms ne
    by (simp add: validateReceiptImage_def validateReceiptImage_try_def io_defs fileToBase64_def
        models_generateContent_def obind_def includes_trim_VALID_RECEIPT)
qed

lemma read_prop_obj: "read_prop e (JObj kvs) p = Returns (case map_of kvs p of Some x \<Rightarrow> x | None \<Rightarrow> JUndefined)"
  by (simp add: read_prop_def)

lemma read_prop_truthy_obj:
  "read_prop e d p = Returns v \<Longrightarrow> truthy v \<Longrightarrow> \<exists>kvs. d = JObj kvs"
  by (cases d) (auto simp: read_prop_def truthy_def)

lemma validate_structure_obj:
  "validate_structure e d = Returns its \<Longrightarrow> \<exists>kvs. d = JObj kvs \<and> map_of kvs ''items'' = Some (JArr its)"
  by (cases d)
     (auto simp: validate_structure_def read_prop_def obind_def truthy_def isArray_def
        split: option.splits jv.splits outcome.splits if_splits)

lemma validate_items_obj:
  "validate_items e xs = Returns () \<Longrightarrow> item \<in> set xs \<Longrightarrow>
   \<exists>kvs n p q. item = JObj kvs \<and> map_of kvs ''name'' = Some (JStr n) \<and>
      map_of kvs ''price'' = Some (JStr p) \<and> map_of kvs ''quantity'' = Some (JStr q)"
proof (induction xs)
  case Nil
  then show ?case by simp
next
  case (Cons x xs)
  from Cons.prems(1) have
    x: "\<exists>kvs n p q. x = JObj kvs \<and> map_of kvs ''name'' = Some (JStr n) \<and>
      map_of kvs ''price'' = Some (JStr p) \<and> map_of kvs ''quantity'' = Some (JStr q)"
    and rest: "validate_items e xs = Returns ()"
    by (cases x; auto simp: read_prop_def obind_def is_string_def
        split: option.splits jv.splits outcome.splits if_splits)+
  with Cons show ?case by auto
qed


lemma build_receipt_totalItems:
  "build_receipt e f d its = Returns rd \<Longrightarrow> read_prop e d ''totalItems'' = Returns ti \<Longrightarrow>
   totalItems rd = or_else ti JNull"
  by (auto simp: build_receipt_def obind_def Let_def split: outcome.splits)

text \<open>
  C3, as the code has it. In a successful extraction whose parsed answer carries no
  \<open>totalItems\<close> (the property is absent, \<open>null\<close>, zero or otherwise falsy), the
  \<open>totalItems\<close> of the resulting record is \<open>null\<close>: the service copies the field with
  \<open>extractedData.totalItems || null\<close> and derives nothing from the items.
\<close>

theorem totalItems_not_derived:
  assumes "genAI \<noteq> None"
    and "validateReceiptImage e genAI f w = (Returns v, w1)" and "isValid v"
    and "readAsDataURL e (file_reads w1) f = Returns url"
    and "generateContent e (length (model_calls w1)) ExtractionPrompt (second_part url) = Returns (Some t)"
    and "t \<noteq> []"
    and "parse_response e t = Returns d"
    and "read_prop e d ''totalItems'' = Returns ti" and "\<not> truthy ti"
    and "extractReceiptData e genAI f w = (Returns r, w')" and "success r"
  shows "\<exists>rd. ApiResponse.data r = Some rd \<and> totalItems rd = JNull"
proof -
  have "extractReceiptData e genAI f w =
     (case obind (parse_response e t) (\<lambda>d.
             obind (validate_structure e d) (\<lambda>its. build_receipt e f d its)) of
        Returns r \<Rightarrow> Returns \<lparr>success = True, data = Some r, error = None\<rparr>
      | Throws err \<Rightarrow>
          Returns \<lparr>success = False, data = None,
            error = Some (case err of
                            ErrorObj message \<Rightarrow> message
                          | NonError \<Rightarrow> ''Unknown error occurred during extraction'')\<rparr>,
      w1\<lparr>file_reads := Suc (file_reads w1), model_calls := model_calls w1 @ [ExtractionPrompt]\<rparr>)"
    using assms(1-6) by (rule extraction_stage)
  with assms(7,10,11) obtain its rd where
    "build_receipt e f d its = Returns rd" and "r = \<lparr>success = True, data = Some rd, error = None\<rparr>"
    by (auto simp: obind_def split: outcome.splits)
  with assms(8,9) show ?thesis
    using build_receipt_totalItems by (fastforce simp: or_else_def)
qed

lemma coffee_run:
  "extractReceiptData (valid_then coffee_text) (Some ''key'') photo fresh_world =
     (Returns \<lparr>success = True, data = Some coffee_receipt, error = None\<rparr>,
      \<lparr>file_reads = 2, model_calls = [ValidationPrompt, ExtractionPrompt]\<rparr>)"
  by (simp add: extractReceiptData_def extractReceiptData_try_def validateReceiptImage_def
      validateReceiptImage_try_def io_defs fileToBase64_def models_generateContent_def obind_def
      valid_then_def scripted_env_def fresh_world_def trim_def js_ws_def startsWith_def
      parse_response_def clean_response_def fence_def json_parse_def is_control_def is_digit_def
      literal_token_def single_escape_def
      json_trim_def json_ws_def coffee_text_def coffee_payload_def coffee_item_def
      validate_structure_def read_prop_def truthy_def isArray_def is_string_def
      build_receipt_def legacy_product_def or_else_def coffee_receipt_def photo_def Let_def)

lemma valid_then_validation:
  "validateReceiptImage (valid_then answer) (Some ''key'') photo fresh_world =
     (Returns \<lparr>isValid = True, reason = None\<rparr>, \<lparr>file_reads = 1, model_calls = [ValidationPrompt]\<rparr>)"
  by (simp add: validateReceiptImage_def validateReceiptImage_try_def io_defs fileToBase64_def
      models_generateContent_def obind_def valid_then_def scripted_env_def fresh_world_def
      trim_def js_ws_def startsWith_def)

lemma coffee_parse: "parse_response (valid_then coffee_text) coffee_text = Returns coffee_payload"
  by (simp add: parse_response_def clean_response_def valid_then_def scripted_env_def
      json_parse_def is_control_def is_digit_def literal_token_def single_escape_def
      json_trim_def json_ws_def trim_def js_ws_def
      startsWith_def fence_def coffee_text_def coffee_payload_def coffee_item_def Let_def)

lemma coffee_spec_count: "spec_totalItems [coffee_item] = JNum 2"
  by (simp add: spec_totalItems_def counted_quantity_def text_field_def coffee_item_def
      decimal_def digit_value_def Let_def)

theorem totalItems_not_derived_witness:
  "read_prop (valid_then coffee_text) coffee_payload ''totalItems'' = Returns JUndefined \<and>
   \<not> truthy JUndefined \<and>
   extractReceiptData (valid_then coffee_text) (Some ''key'') photo fresh_world =
     (Returns \<lparr>success = True, data = Some coffee_receipt, error = None\<rparr>,
      \<lparr>file_reads = 2, model_calls = [ValidationPrompt, ExtractionPrompt]\<rparr>) \<and>
   (\<exists>rd. ApiResponse.data \<lparr>success = True, data = Some coffee_receipt, error = None\<rparr> = Some rd \<and>
      totalItems rd = JNull)"
proof -
  let ?e = "valid_then coffee_text"
  let ?w1 = "\<lparr>file_reads = 1, model_calls = [ValidationPrompt]\<rparr>"
  have 1: "Some ''key'' \<noteq> None" by simp
  have 3: "isValid \<lparr>isValid = True, reason = None\<rparr>" by simp
  have 4: "readAsDataURL ?e (file_reads ?w1) photo = Returns ''data:image/png;base64,AAAA''"
    by (simp add: valid_then_def scripted_env_def)
  have 5: "generateContent ?e (length (model_calls ?w1)) ExtractionPrompt
             (second_part ''data:image/png;base64,AAAA'') = Returns (Some coffee_text)"
    by (simp add: valid_then_def scripted_env_def)
  have 6: "coffee_text \<noteq> []" by (simp add: coffee_text_def)
  have 8: "read_prop ?e coffee_payload ''totalItems'' = Returns JUndefined"
    by (simp add: read_prop_def coffee_payload_def)
  have 9: "\<not> truthy JUndefined" by (simp add: truthy_def)
  have 11: "success \<lparr>success = True, data = Some coffee_receipt, error = None\<rparr>" by simp
  show ?thesis
    using 8 9 coffee_run
      totalItems_not_derived[OF 1 valid_then_validation 3 4 5 6 coffee_parse 8 9 coffee_run 11]
    by blast
qed

theorem totalItems_derived_counterexample:
  "read_prop (valid_then coffee_text) coffee_payload ''totalItems'' = Returns JUndefined \<and>
   extractReceiptData (valid_then coffee_text) (Some ''key'') photo fresh_world =
     (Returns \<lparr>success = True, data = Some coffee_receipt, error = None\<rparr>,
      \<lparr>file_reads = 2, model_calls = [ValidationPrompt, ExtractionPrompt]\<rparr>) \<and>
   items coffee_receipt = [coffee_item] \<and>
   spec_totalItems (items coffee_receipt) = JNum 2 \<and>
   totalItems coffee_receipt = JNull \<and>
   totalItems coffee_receipt \<noteq> spec_totalItems (items coffee_receipt)"
proof -
  have "read_prop (valid_then coffee_text) coffee_payload ''totalItems'' = Returns JUndefined"
    by (simp add: read_prop_def coffee_payload_def)
  moreover have "items coffee_receipt = [coffee_item]" "totalItems coffee_receipt = JNull"
    by (simp_all add: coffee_receipt_def)
  ultimately show ?thesis using coffee_run coffee_spec_count by simp
qed

subsection \<open>Malformed answers\<close>

lemma validate_items_messages:
  "validate_items e xs = Throws err \<Longrightarrow>
   err = ErrorObj ''Invalid item format in response'' \<or>
   err = ErrorObj (null_read_message e ''name'')"
proof (induction xs)
  case Nil
  then show ?case by simp
next
  case (Cons x xs)
  then show ?case
    by (cases x) (auto simp: read_prop_def obind_def split: if_splits option.splits)
qed

lemma validate_structure_messages:
  "validate_structure e d = Throws err \<Longrightarrow>
   err = ErrorObj ''Invalid response format: missing items array'' \<or>
   err = ErrorObj ''Invalid item format in response'' \<or>
   err = ErrorObj (null_read_message e ''items'') \<or>
   err = ErrorObj (null_read_message e ''name'')"
  using validate_items_messages[of e _ err]
  by (cases d)
     (auto simp: validate_structure_def read_prop_def obind_def
        split: if_splits option.splits jv.splits outcome.splits)

lemma missing_items_message:
  "read_prop e d ''items'' = Returns its \<Longrightarrow> \<not> truthy its \<or> \<not> isArray its \<Longrightarrow>
   validate_structure e d = Throws (ErrorObj ''Invalid response format: missing items array'')"
  by (auto simp: validate_structure_def obind_def)

lemma bad_item_message:
  assumes "read_prop e d ''items'' = Returns (JArr xs)"
    and "JNull \<notin> set xs" and "JUndefined \<notin> set xs"
    and "validate_items e xs \<noteq> Returns ()"
  shows "validate_structure e d = Throws (ErrorObj ''Invalid item format in response'')"
proof -
  have "validate_items e xs = Throws (ErrorObj ''Invalid item format in response'')"
    using assms(2-4)
  proof (induction xs)
    case Nil
    then show ?case by simp
  next
    case (Cons x xs)
    then show ?case
      by (cases x) (auto simp: read_prop_def obind_def split: if_splits option.splits)
  qed
  with assms(1) show ?thesis
    by (simp add: validate_structure_def obind_def truthy_def isArray_def)
qed

lemma schema_violation_fails:
  assumes "genAI \<noteq> None"
    and "validateReceiptImage e genAI f w = (Returns v, w1)" and "isValid v"
    and "readAsDataURL e (file_reads w1) f = Returns url"
    and "generateContent e (length (model_calls w1)) ExtractionPrompt (second_part url) = Returns (Some t)"
    and "t \<noteq> []"
    and "parse_response e t = Returns d"
    and "validate_structure e d = Throws (ErrorObj m)"
  shows "extractReceiptData e genAI f w =
     (Returns \<lparr>success = False, data = None, error = Some m\<rparr>,
      w1\<lparr>file_reads := Suc (file_reads w1), model_calls := model_calls w1 @ [ExtractionPrompt]\<rparr>)"
  using extraction_stage[OF assms(1-6)] assms(7,8) by (simp add: obind_def)

lemma failed_attempt_keeps_history:
  assumes "extractReceiptData e (Some apiKey) f w = (Returns r, w')" and "\<not> success r"
    and "apiKey \<noteq> []"
  shows "history (fst (run_extraction e genAI f apiKey w (s, st))) = history s \<and>
         currentExtraction (fst (run_extraction e genAI f apiKey w (s, st))) = currentExtraction s \<and>
         snd (run_extraction e genAI f apiKey w (s, st)) = st"
  using assms
  by (simp add: run_extraction_def extract_thunk_def initialize_def dispatch_all_def)

text \<open>
  C4 at an answer whose only item is \<open>null\<close>. The answer parses and its \<open>items\<close> is an
  array with an item that has no string \<open>name\<close>, which the specification answers with a
  schema-error message. The loop reads \<open>item.name\<close> of \<open>null\<close>, which throws a \<open>TypeError\<close>; the
  \<open>catch\<close> of \<open>extractReceiptData\<close> turns it into a failure that carries the engine's
  message for that read, and neither of the two schema messages. The failure itself, the
  absence of data and the unchanged history hold here too.
\<close>

theorem null_item_engine_message:
  "parse_response (valid_then null_item_text) null_item_text = Returns null_item_payload \<and>
   extractReceiptData (valid_then null_item_text) (Some ''key'') photo fresh_world =
     (Returns \<lparr>success = False, data = None, error = Some (v8_null_read_message ''name'')\<rparr>,
      \<lparr>file_reads = 2, model_calls = [ValidationPrompt, ExtractionPrompt]\<rparr>) \<and>
   v8_null_read_message ''name'' = ''Cannot read properties of null (reading '' @ [CHR 0x27] @ ''name'' @ [CHR 0x27] @ '')'' \<and>
   v8_null_read_message ''name'' \<noteq> ''Invalid item format in response'' \<and>
   v8_null_read_message ''name'' \<noteq> ''Invalid response format: missing items array'' \<and>
   history (fst (run_extraction (valid_then null_item_text) None photo ''key'' fresh_world
                   (idle_state, \<lparr>stored = None, writable = True\<rparr>))) = []"
proof -
  let ?e = "valid_then null_item_text"
  let ?w1 = "\<lparr>file_reads = 1, model_calls = [ValidationPrompt]\<rparr>"
  have p: "parse_response ?e null_item_text = Returns null_item_payload"
    by (simp add: parse_response_def clean_response_def valid_then_def scripted_env_def
        json_parse_def is_control_def is_digit_def literal_token_def single_escape_def
        json_trim_def json_ws_def trim_def js_ws_def
        startsWith_def fence_def null_item_text_def null_item_payload_def Let_def)
  have v: "validate_structure ?e null_item_payload = Throws (ErrorObj (v8_null_read_message ''name''))"
    by (simp add: validate_structure_def read_prop_def obind_def null_item_payload_def truthy_def
        isArray_def valid_then_def scripted_env_def)
  have 4: "readAsDataURL ?e (file_reads ?w1) photo = Returns ''data:image/png;base64,AAAA''"
    by (simp add: valid_then_def scripted_env_def)
  have 5: "generateContent ?e (length (model_calls ?w1)) ExtractionPrompt
             (second_part ''data:image/png;base64,AAAA'') = Returns (Some null_item_text)"
    by (simp add: valid_then_def scripted_env_def)
  have 6: "null_item_text \<noteq> []" by (simp add: null_item_text_def)
  have run: "extractReceiptData ?e (Some ''key'') photo fresh_world =
     (Returns \<lparr>success = False, data = None, error = Some (v8_null_read_message ''name'')\<rparr>,
      \<lparr>file_reads = 2, model_calls = [ValidationPrompt, ExtractionPrompt]\<rparr>)"
    using schema_violation_fails[OF _ valid_then_validation _ 4 5 6 p v] by simp
  have h: "history (fst (run_extraction ?e None photo ''key'' fresh_world
                   (idle_state, \<lparr>stored = None, writable = True\<rparr>))) = []"
    using failed_attempt_keeps_history[OF run, of None idle_state "\<lparr>stored = None, writable = True\<rparr>"]
    by (simp add: idle_state_def)
  show ?thesis using p run h by (simp add: v8_null_read_message_def)
qed


section \<open>No throw passes the service\<close>

lemma read_prop_throws:
  "read_prop e v p = Throws err \<Longrightarrow> err = ErrorObj (null_read_message e p)"
  by (cases v) (auto simp: read_prop_def)

lemma legacy_product_throws:
  "legacy_product e item = Throws err \<Longrightarrow> \<exists>p. err = ErrorObj (null_read_message e p)"
  by (auto simp: legacy_product_def obind_def split: outcome.splits dest: read_prop_throws)

lemma map_legacy_product_throws:
  "map_outcome (legacy_product e) xs = Throws err \<Longrightarrow> \<exists>p. err = ErrorObj (null_read_message e p)"
proof (induction xs)
  case Nil
  then show ?case by simp
next
  case (Cons x xs)
  then show ?case
    by (auto simp: obind_def split: outcome.splits dest: legacy_product_throws)
qed

lemma build_receipt_throws:
  "build_receipt e f d its = Throws err \<Longrightarrow> \<exists>p. err = ErrorObj (null_read_message e p)"
  by (auto simp: build_receipt_def obind_def Let_def split: outcome.splits
      dest: read_prop_throws map_legacy_product_throws)

lemma parse_response_throws:
  "parse_response e t = Throws err \<Longrightarrow> err = ErrorObj ''Failed to parse AI response as JSON''"
  by (auto simp: parse_response_def split: option.splits)

lemma fileToBase64_throws:
  "fileToBase64 e f w = (Throws err, w') \<Longrightarrow> \<exists>n. readAsDataURL e n f = Throws err"
  by (auto simp: fileToBase64_def obind_def split: outcome.splits)

lemma generateContent_throws:
  "models_generateContent e p i w = (Throws err, w') \<Longrightarrow> \<exists>n. generateContent e n p i = Throws err"
  by (auto simp: models_generateContent_def)

lemma try_throw_message:
  assumes "errors_have_messages e"
    and "extractReceiptData_try e genAI f w = (Throws (ErrorObj m), w')"
  shows "m \<noteq> []"
proof -
  have rd: "\<And>w w'. fileToBase64 e f w \<noteq> (Throws (ErrorObj []), w')"
    using assms(1) fileToBase64_throws unfolding errors_have_messages_def by blast
  have gc: "\<And>p i w w'. models_generateContent e p i w \<noteq> (Throws (ErrorObj []), w')"
    using assms(1) generateContent_throws unfolding errors_have_messages_def by blast
  have nm: "\<And>p. null_read_message e p \<noteq> []"
    using assms(1) unfolding errors_have_messages_def by blast
  have pr: "\<And>t. parse_response e t \<noteq> Throws (ErrorObj [])"
  proof
    fix t
    assume "parse_response e t = Throws (ErrorObj [])"
    from parse_response_throws[OF this] show False by simp
  qed
  have vs: "\<And>d. validate_structure e d \<noteq> Throws (ErrorObj [])"
  proof
    fix d
    assume "validate_structure e d = Throws (ErrorObj [])"
    from validate_structure_messages[OF this] nm[of "''items''"] nm[of "''name''"]
    show False by auto
  qed
  have br: "\<And>d its. build_receipt e f d its \<noteq> Throws (ErrorObj [])"
  proof
    fix d its
    assume "build_receipt e f d its = Throws (ErrorObj [])"
    then obtain p where "ErrorObj [] = ErrorObj (null_read_message e p)"
      using build_receipt_throws by blast
    with nm[of p] show False by simp
  qed
  have vr: "\<And>w x w'. validateReceiptImage e genAI f w \<noteq> (Throws x, w')"
    using validateReceiptImage_returns[of e genAI f] by (metis outcome.distinct(1) prod.inject)
  show ?thesis
  proof
    assume "m = []"
    with assms(2) have "extractReceiptData_try e genAI f w = (Throws (ErrorObj []), w')" by simp
    then show False
      using rd gc pr vs br vr
      by (auto simp: extractReceiptData_try_def io_defs split: prod.splits outcome.splits if_splits option.splits)
  qed
qed

lemma try_failure_message:
  "extractReceiptData_try e genAI f w = (Returns r, w') \<Longrightarrow> \<not> success r \<Longrightarrow>
   \<exists>m. ApiResponse.error r = Some m \<and> m \<noteq> []"
  by (auto simp: extractReceiptData_try_def io_defs
      split: prod.splits outcome.splits if_splits option.splits)

text \<open>
  Whatever the file, the state of the service and the behaviour of the file reader, the
  model and \<open>JSON.parse\<close>, \<open>extractReceiptData\<close> returns and does not throw, and what it
  returns is discriminated: a success with data and no error, or a failure with an error
  message and no data. The \<open>catch\<close> hands on the message of the error it caught as it
  is, so the message of a failure is known to be not empty only when the errors the
  platform raises carry a message.
\<close>

theorem extractReceiptData_never_throws:
  "\<exists>r w'. extractReceiptData e genAI f w = (Returns r, w') \<and> discriminated r \<and>
     (errors_have_messages e \<longrightarrow> success r \<or> (\<exists>m. ApiResponse.error r = Some m \<and> m \<noteq> []))"
proof (cases "extractReceiptData_try e genAI f w")
  case (Pair o1 w1)
  show ?thesis
  proof (cases o1)
    case (Returns r)
    with Pair have "discriminated r" using extract_try_discriminated by blast
    moreover from Pair Returns have "success r \<or> (\<exists>m. ApiResponse.error r = Some m \<and> m \<noteq> [])"
      using try_failure_message by blast
    ultimately show ?thesis
      using Pair Returns by (simp add: extractReceiptData_def catch_io_def)
  next
    case (Throws x)
    show ?thesis
    proof (cases x)
      case (ErrorObj m)
      with Pair Throws have "errors_have_messages e \<longrightarrow> m \<noteq> []"
        using try_throw_message by blast
      with Pair Throws ErrorObj show ?thesis
        by (simp add: extractReceiptData_def catch_io_def return_io_def discriminated_def)
    next
      case NonError
      with Pair Throws show ?thesis
        by (simp add: extractReceiptData_def catch_io_def return_io_def discriminated_def)
    qed
  qed
qed

lemma quota_run:
  "extractReceiptData
       (scripted_env (Returns (Some ''VALID_RECEIPT'')) (Throws (ErrorObj ''429 Too Many Requests''))
          (\<lambda>s. None))
       (Some ''key'') photo fresh_world =
     (Returns \<lparr>success = False, data = None, error = Some ''429 Too Many Requests''\<rparr>,
      \<lparr>file_reads = 2, model_calls = [ValidationPrompt, ExtractionPrompt]\<rparr>)"
  by (simp add: extractReceiptData_def extractReceiptData_try_def validateReceiptImage_def
      validateReceiptImage_try_def io_defs fileToBase64_def models_generateContent_def obind_def
      scripted_env_def fresh_world_def trim_def js_ws_def startsWith_def)

lemma quota_env_messages:
  "errors_have_messages
     (scripted_env (Returns (Some ''VALID_RECEIPT'')) (Throws (ErrorObj ''429 Too Many Requests''))
        (\<lambda>s. None))"
  by (simp add: errors_have_messages_def scripted_env_def v8_null_read_message_def)

theorem extractReceiptData_never_throws_witness:
  "errors_have_messages
     (scripted_env (Returns (Some ''VALID_RECEIPT'')) (Throws (ErrorObj ''429 Too Many Requests''))
        (\<lambda>s. None)) \<and>
   extractReceiptData
       (scripted_env (Returns (Some ''VALID_RECEIPT'')) (Throws (ErrorObj ''429 Too Many Requests''))
          (\<lambda>s. None))
       (Some ''key'') photo fresh_world =
     (Returns \<lparr>success = False, data = None, error = Some ''429 Too Many Requests''\<rparr>,
      \<lparr>file_reads = 2, model_calls = [ValidationPrompt, ExtractionPrompt]\<rparr>) \<and>
   discriminated \<lparr>success = False, data = None, error = Some ''429 Too Many Requests''\<rparr> \<and>
   (\<exists>m. ApiResponse.error \<lparr>success = False, data = None, error = Some ''429 Too Many Requests''\<rparr>
          = Some m \<and> m \<noteq> [])"
  using quota_env_messages quota_run
    extractReceiptData_never_throws[of
      "scripted_env (Returns (Some ''VALID_RECEIPT'')) (Throws (ErrorObj ''429 Too Many Requests''))
          (\<lambda>s. None)" "Some ''key''" photo fresh_world]
  by auto

text \<open>
  C5. A failure is to carry a message a person can read. When the extraction call of the
  model fails with \<open>new Error('')\<close>, \<open>extractReceiptData\<close> returns (it does not throw)
  the failure whose message is the empty text. The rejection of an invalid image
  (\<open>validation.reason || 'Invalid receipt image'\<close>) and the thunk
  (\<open>response.error || 'Failed to extract receipt data'\<close>) replace an empty message by a
  default; this \<open>catch\<close> does so for a thrown value that is no \<open>Error\<close> only.
\<close>

theorem empty_error_message:
  "extractReceiptData
       (scripted_env (Returns (Some ''VALID_RECEIPT'')) (Throws (ErrorObj [])) json_parse)
       (Some ''key'') photo fresh_world =
     (Returns \<lparr>success = False, data = None, error = Some []\<rparr>,
      \<lparr>file_reads = 2, model_calls = [ValidationPrompt, ExtractionPrompt]\<rparr>)"
  by (simp add: extractReceiptData_def extractReceiptData_try_def validateReceiptImage_def
      validateReceiptImage_try_def io_defs fileToBase64_def models_generateContent_def obind_def
      scripted_env_def fresh_world_def trim_def js_ws_def startsWith_def)
section \<open>The clean-up of a fenced answer\<close>

subsection \<open>Stripping at both ends\<close>

lemma strip_id:
  "s \<noteq> [] \<Longrightarrow> \<not> P (hd s) \<Longrightarrow> \<not> P (last s) \<Longrightarrow> rev (dropWhile P (rev (dropWhile P s))) = s"
proof -
  assume s: "s \<noteq> []" and h: "\<not> P (hd s)" and l: "\<not> P (last s)"
  from s h have 1: "dropWhile P s = s" by (cases s) simp_all
  from s l have "\<not> P (hd (rev s))" by (simp add: hd_rev)
  with s have "dropWhile P (rev s) = rev s" by (cases "rev s") simp_all
  with 1 show ?thesis by simp
qed

lemma strip_core:
  assumes "list_all P a" and "list_all P b" and "c \<noteq> []" and "\<not> P (hd c)" and "\<not> P (last c)"
  shows "rev (dropWhile P (rev (dropWhile P (a @ c @ b)))) = c"
proof -
  from assms(1) have "dropWhile P (a @ c @ b) = dropWhile P (c @ b)"
    by (induction a) simp_all
  also from assms(3,4) have "\<dots> = c @ b" by (cases c) simp_all
  finally have 1: "dropWhile P (a @ c @ b) = c @ b" .
  from assms(2) have "dropWhile P (rev b @ rev c) = dropWhile P (rev c)"
    by (simp add: dropWhile_append list_all_iff)
  also from assms(3,5) have "\<dots> = rev c" by (cases "rev c") (simp_all add: hd_rev)
  finally show ?thesis using 1 by simp
qed

lemma strip_decomp:
  "\<exists>a b. s = a @ rev (dropWhile P (rev (dropWhile P s))) @ b \<and> list_all P a \<and> list_all P b"
proof -
  let ?u = "dropWhile P s"
  let ?a = "takeWhile P s"
  let ?b = "rev (takeWhile P (rev ?u))"
  have "rev ?u = takeWhile P (rev ?u) @ dropWhile P (rev ?u)" by simp
  then have "?u = rev (dropWhile P (rev ?u)) @ ?b"
    by (metis rev_append rev_rev_ident)
  moreover have "s = ?a @ ?u" by simp
  ultimately have "s = ?a @ rev (dropWhile P (rev ?u)) @ ?b" by metis
  moreover have "list_all P ?a" by (simp add: list_all_iff) (meson set_takeWhileD)
  moreover have "list_all P ?b" by (simp add: list_all_iff) (meson set_takeWhileD)
  ultimately show ?thesis by blast
qed

lemma dropWhile_rev_nonempty: "dropWhile P (rev u) \<noteq> [] \<Longrightarrow> u \<noteq> []"
  by (cases u) auto

lemma strip_ends:
  assumes "rev (dropWhile P (rev (dropWhile P s))) \<noteq> []"
  shows "\<not> P (hd (rev (dropWhile P (rev (dropWhile P s))))) \<and>
         \<not> P (last (rev (dropWhile P (rev (dropWhile P s)))))"
proof -
  let ?u = "dropWhile P s"
  let ?d = "dropWhile P (rev ?u)"
  from assms have d: "?d \<noteq> []" by simp
  then have l: "\<not> P (hd ?d)" by (rule hd_dropWhile)
  have "rev ?u = takeWhile P (rev ?u) @ ?d" by simp
  with d have "last (rev ?u) = last ?d" by (metis last_appendR)
  moreover from d have u: "?u \<noteq> []" by (rule dropWhile_rev_nonempty)
  ultimately have "last ?d = hd ?u" by (simp add: last_rev)
  moreover from u have "\<not> P (hd ?u)" by (rule hd_dropWhile)
  ultimately have "\<not> P (last ?d)" by simp
  with l d show ?thesis by (simp add: hd_rev last_rev)
qed

lemma json_trim_idem: "json_trim (json_trim s) = json_trim s"
proof (cases "json_trim s = []")
  case True
  have "json_trim [] = []" by (simp add: json_trim_def)
  with True show ?thesis by (simp only:)
next
  case False
  then have "\<not> json_ws (hd (json_trim s)) \<and> \<not> json_ws (last (json_trim s))"
    unfolding json_trim_def by (rule strip_ends)
  with False have "rev (dropWhile json_ws (rev (dropWhile json_ws (json_trim s)))) = json_trim s"
    using strip_id by blast
  then show ?thesis by (simp add: json_trim_def)
qed

lemma json_ws_js_ws: "json_ws c \<Longrightarrow> js_ws c"
  by (auto simp: json_ws_def js_ws_def)

lemma value_first_not_ws: "value_first c \<Longrightarrow> \<not> js_ws c \<and> c \<noteq> CHR 0x60"
  by (auto simp: value_first_def js_ws_def)

lemma value_last_not_ws: "value_last c \<Longrightarrow> \<not> js_ws c"
  by (auto simp: value_last_def js_ws_def)

lemma trim_json_text:
  assumes "json_trim s \<noteq> []" and "value_first (hd (json_trim s))" and "value_last (last (json_trim s))"
  shows "trim s = json_trim s"
proof -
  obtain a b where s: "s = a @ json_trim s @ b" and a: "list_all json_ws a" and b: "list_all json_ws b"
    using strip_decomp[of s json_ws] unfolding json_trim_def by blast
  from a b have "list_all js_ws a" "list_all js_ws b"
    by (simp_all add: list_all_iff json_ws_js_ws)
  then have "rev (dropWhile js_ws (rev (dropWhile js_ws (a @ json_trim s @ b)))) = json_trim s"
    using assms value_first_not_ws value_last_not_ws by (intro strip_core) auto
  with s show ?thesis unfolding trim_def by simp
qed

subsection \<open>The fence patterns\<close>

lemma match_end_length:
  "match_here ic (as @ [End]) s = Some n \<Longrightarrow> n = length s \<and> n \<le> length as"
proof (induction as arbitrary: s n)
  case Nil
  then show ?case by (cases s) simp_all
next
  case (Cons a as)
  show ?case
  proof (cases s)
    case Nil
    with Cons show ?thesis by (cases a) (auto dest!: Cons.IH)
  next
    case (Cons c cs)
    with Cons.prems Cons.IH show ?thesis
      by (cases a) (force split: if_splits option.splits)+
  qed
qed

lemma fence_close_long:
  "4 < length s \<Longrightarrow> match_alt False fence_close s = None"
proof (rule ccontr)
  assume len: "4 < length s" and "match_alt False fence_close s \<noteq> None"
  then obtain n where "match_here False (([Opt (CHR 0x0A)] @ lits fence) @ [End]) s = Some n"
    by (auto simp: fence_close_def split: option.splits)
  then have "n = length s" "n \<le> length ([Opt (CHR 0x0A)] @ lits fence)"
    using match_end_length by blast+
  with len show False by (simp add: lits_def fence_def)
qed

lemma fence_close_exec:
  "regex_exec False fence_close (t @ CHR 0x0A # fence) = Some (length t, 4)"
proof (induction t)
  case Nil
  show ?case by (simp add: fence_close_def lits_def fence_def char_matches_def)
next
  case (Cons c t)
  have "match_alt False fence_close ((c # t) @ CHR 0x0A # fence) = None"
    by (rule fence_close_long) (simp add: fence_def)
  with Cons show ?case by simp
qed

lemma fence_close_replace:
  "replace_first False fence_close (t @ CHR 0x0A # fence) = t"
proof -
  have "length fence = 3" by (simp add: fence_def)
  then show ?thesis by (simp add: replace_first_def fence_close_exec)
qed

lemma json_fence_open_replace:
  "replace_first False json_fence_open (fence @ ''json'' @ CHR 0x0A # rest) = rest"
proof -
  have "regex_exec False json_fence_open (fence @ ''json'' @ CHR 0x0A # rest) = Some (0, 8)"
    by (simp add: json_fence_open_def lits_def fence_def char_matches_def)
  then show ?thesis by (simp add: replace_first_def fence_def)
qed

lemma fence_open_replace:
  "replace_first False fence_open (fence @ CHR 0x0A # rest) = rest"
proof -
  have "regex_exec False fence_open (fence @ CHR 0x0A # rest) = Some (0, 4)"
    by (simp add: fence_open_def lits_def fence_def char_matches_def)
  then show ?thesis by (simp add: replace_first_def fence_def)
qed

lemma trim_fenced_json: "trim (fenced_json t) = fenced_json t"
  unfolding trim_def
  by (rule strip_id) (simp_all add: fenced_json_def fence_def js_ws_def)

lemma trim_fenced: "trim (fenced t) = fenced t"
  unfolding trim_def
  by (rule strip_id) (simp_all add: fenced_def fence_def js_ws_def)

lemma clean_fenced_json: "clean_response (fenced_json t) = t"
proof -
  have s: "startsWith (fenced_json t) (fence @ ''json'')"
    by (simp add: startsWith_def fenced_json_def fence_def)
  have "replace_first False json_fence_open (fenced_json t) = t @ CHR 0x0A # fence"
    using json_fence_open_replace[of "t @ CHR 0x0A # fence"] by (simp add: fenced_json_def)
  with s show ?thesis
    by (simp add: clean_response_def trim_fenced_json fence_close_replace)
qed

lemma clean_fenced: "clean_response (fenced t) = t"
proof -
  have s: "\<not> startsWith (fenced t) (fence @ ''json'')" "startsWith (fenced t) fence"
    by (simp_all add: startsWith_def fenced_def fence_def)
  have "replace_first False fence_open (fenced t) = t @ CHR 0x0A # fence"
    using fence_open_replace[of "t @ CHR 0x0A # fence"] by (simp add: fenced_def)
  with s show ?thesis
    by (simp add: clean_response_def trim_fenced fence_close_replace)
qed

lemma clean_json_text:
  assumes "json_text_shape parse" and "parse t \<noteq> None"
  shows "clean_response t = json_trim t"
proof -
  from assms have ne: "json_trim t \<noteq> []" and f: "value_first (hd (json_trim t))"
    and l: "value_last (last (json_trim t))"
    by (auto simp: json_text_shape_def)
  then have tr: "trim t = json_trim t" by (rule trim_json_text)
  from f have "hd (json_trim t) \<noteq> CHR 0x60" using value_first_not_ws by blast
  with ne have "\<not> startsWith (json_trim t) fence" "\<not> startsWith (json_trim t) (fence @ ''json'')"
    by (cases "json_trim t"; simp add: startsWith_def fence_def)+
  with tr show ?thesis by (simp add: clean_response_def)
qed

text \<open>
  C8. Let \<open>t\<close> be a JSON text: \<open>JSON.parse\<close> accepts it, where \<open>JSON.parse\<close>
  ignores JSON white space around a text and accepts only texts that start and end like a
  JSON value. Then the clean-up and parse of \<open>t\<close> between Markdown fences, with the
  language tag \<open>json\<close> or without it, gives the same value as the clean-up and parse of
  \<open>t\<close> itself.
\<close>

theorem fenced_answer_parses_alike:
  assumes "ignores_json_ws (JSON_parse e)" and "json_text_shape (JSON_parse e)"
    and "JSON_parse e t = Some v"
  shows "parse_response e (fenced_json t) = parse_response e t \<and>
         parse_response e (fenced t) = parse_response e t \<and>
         parse_response e t = Returns v"
proof -
  from assms(2,3) have "clean_response t = json_trim t"
    using clean_json_text[of "JSON_parse e" t] by simp
  moreover from assms(1) have "JSON_parse e (json_trim t) = JSON_parse e t"
    by (simp add: ignores_json_ws_def)
  ultimately have "parse_response e t = Returns v"
    using assms(3) by (simp add: parse_response_def)
  moreover have "parse_response e (fenced_json t) = Returns v"
    using assms(3) by (simp add: parse_response_def clean_fenced_json)
  moreover have "parse_response e (fenced t) = Returns v"
    using assms(3) by (simp add: parse_response_def clean_fenced)
  ultimately show ?thesis by simp
qed

subsection \<open>The parser obeys the two grammar facts\<close>

lemma json_parse_ignores_ws: "ignores_json_ws json_parse"
  by (simp add: ignores_json_ws_def json_parse_def json_trim_idem)

lemma consumes_trans: "consumes a b P \<Longrightarrow> consumes b c Q \<Longrightarrow> consumes a c Q"
proof -
  assume "consumes a b P" and "consumes b c Q"
  then obtain p q where "a = p @ b" "b = q @ c" "q \<noteq> []" "Q (last q)"
    by (auto simp: consumes_def)
  then have "a = (p @ q) @ c" "p @ q \<noteq> []" "Q (last (p @ q))" by simp_all
  then show ?thesis unfolding consumes_def by blast
qed

lemma consumes_prefix: "consumes b c Q \<Longrightarrow> consumes (p @ b) c Q"
proof -
  assume "consumes b c Q"
  then obtain q where "b = q @ c" "q \<noteq> []" "Q (last q)" by (auto simp: consumes_def)
  then have "p @ b = (p @ q) @ c" "p @ q \<noteq> []" "Q (last (p @ q))" by simp_all
  then show ?thesis unfolding consumes_def by blast
qed

lemma consumes_Cons: "consumes b c Q \<Longrightarrow> consumes (x # b) c Q"
  using consumes_prefix[of b c Q "[x]"] by simp

lemma consumes_one: "Q x \<Longrightarrow> consumes (x # r) r Q"
  unfolding consumes_def by (rule exI[of _ "[x]"]) simp

lemma consumes_weaken: "consumes a b P \<Longrightarrow> (\<And>c. P c \<Longrightarrow> Q c) \<Longrightarrow> consumes a b Q"
  unfolding consumes_def by blast

lemma consumes_skip: "consumes (dropWhile W s) r Q \<Longrightarrow> consumes s r Q"
  using consumes_prefix[of "dropWhile W s" r Q "takeWhile W s"] by simp

lemma consumes_digits:
  "takeWhile is_digit s \<noteq> [] \<Longrightarrow> consumes s (dropWhile is_digit s) is_digit"
proof -
  assume ne: "takeWhile is_digit s \<noteq> []"
  then have "last (takeWhile is_digit s) \<in> set (takeWhile is_digit s)" by simp
  then have "is_digit (last (takeWhile is_digit s))" by (meson set_takeWhileD)
  moreover have "s = takeWhile is_digit s @ dropWhile is_digit s" by simp
  ultimately show ?thesis using ne unfolding consumes_def by blast
qed

lemma string_body_consumes:
  "string_body s = Some (str, r) \<Longrightarrow> consumes s r (\<lambda>c. c = CHR 0x22)"
proof (induction "length s" arbitrary: s str r rule: less_induct)
  case less
  show ?case
  proof (cases s)
    case Nil
    with less.prems show ?thesis by simp
  next
    case (Cons c cs)
    note s = this
    show ?thesis
    proof (cases "c = CHR 0x22")
      case True
      with less.prems s show ?thesis by (simp add: consumes_one)
    next
      case False
      note nq = this
      show ?thesis
      proof (cases "c = CHR 0x5C")
        case True
        note bs = this
        show ?thesis
        proof (cases cs)
          case Nil
          with less.prems s nq bs show ?thesis by simp
        next
          case (Cons e r0)
          note cs = this
          show ?thesis
          proof (cases "e = CHR ''u''")
            case True
            with less.prems s nq bs cs obtain a b c' d r' x str' where
              r0: "r0 = a # b # c' # d # r'" and sb: "string_body r' = Some (str', r)"
              by (auto split: list.splits option.splits)
            have "length r' < length s" using s cs r0 by simp
            then have "consumes r' r (\<lambda>c. c = CHR 0x22)"
              using less.hyps sb by blast
            then have "consumes ([c, e, a, b, c', d] @ r') r (\<lambda>c. c = CHR 0x22)"
              by (rule consumes_prefix)
            with s cs r0 show ?thesis by simp
          next
            case False
            with less.prems s nq bs cs obtain x str' where
              sb: "string_body r0 = Some (str', r)"
              by (auto split: option.splits)
            have "length r0 < length s" using s cs by simp
            then have "consumes r0 r (\<lambda>c. c = CHR 0x22)"
              using less.hyps sb by blast
            then have "consumes ([c, e] @ r0) r (\<lambda>c. c = CHR 0x22)"
              by (rule consumes_prefix)
            with s cs show ?thesis by simp
          qed
        qed
      next
        case False
        with less.prems s nq obtain str' where
          sb: "string_body cs = Some (str', r)"
          by (auto split: if_splits)
        have "length cs < length s" using s by simp
        then have "consumes cs r (\<lambda>c. c = CHR 0x22)"
          using less.hyps sb by blast
        then show ?thesis unfolding s by (rule consumes_Cons)
      qed
    qed
  qed
qed

lemma literal_token_consumes:
  "literal_token s = Some (v, r) \<Longrightarrow> consumes s r (\<lambda>c. c = CHR ''e'' \<or> c = CHR ''l'')"
proof -
  assume a: "literal_token s = Some (v, r)"
  from a consider "startsWith s ''true''" "r = drop 4 s"
    | "startsWith s ''false''" "r = drop 5 s"
    | "startsWith s ''null''" "r = drop 4 s"
    by (auto simp: literal_token_def split: if_splits)
  then show ?thesis
  proof cases
    case 1
    then have "take (length ''true'') s = ''true''" by (simp only: startsWith_def)
    then have "s = ''true'' @ drop (length ''true'') s" by (metis append_take_drop_id)
    moreover have "length ''true'' = 4" by simp
    ultimately have "s = ''true'' @ r" using 1 by (simp add: eval_nat_numeral)
    then show ?thesis unfolding consumes_def by (intro exI[of _ "''true''"]) simp
  next
    case 2
    then have "take (length ''false'') s = ''false''" by (simp only: startsWith_def)
    then have "s = ''false'' @ drop (length ''false'') s" by (metis append_take_drop_id)
    moreover have "length ''false'' = 5" by simp
    ultimately have "s = ''false'' @ r" using 2 by (simp add: eval_nat_numeral)
    then show ?thesis unfolding consumes_def by (intro exI[of _ "''false''"]) simp
  next
    case 3
    then have "take (length ''null'') s = ''null''" by (simp only: startsWith_def)
    then have "s = ''null'' @ drop (length ''null'') s" by (metis append_take_drop_id)
    moreover have "length ''null'' = 4" by simp
    ultimately have "s = ''null'' @ r" using 3 by (simp add: eval_nat_numeral)
    then show ?thesis unfolding consumes_def by (intro exI[of _ "''null''"]) simp
  qed
qed

lemma number_token_consumes:
  assumes "number_token s = Some (x, r)"
  shows "consumes s r is_digit"
proof -
  define negative where "negative = (s \<noteq> [] \<and> hd s = CHR ''-'')"
  define s1 where "s1 = (if negative then tl s else s)"
  define whole where "whole = takeWhile is_digit s1"
  define s2 where "s2 = dropWhile is_digit s1"
  define has_fraction where "has_fraction = (s2 \<noteq> [] \<and> hd s2 = CHR ''.'')"
  define fraction where "fraction = (if has_fraction then takeWhile is_digit (tl s2) else [])"
  define s3 where "s3 = (if has_fraction then dropWhile is_digit (tl s2) else s2)"
  define has_exponent where "has_exponent = (s3 \<noteq> [] \<and> (hd s3 = CHR ''e'' \<or> hd s3 = CHR ''E''))"
  define s4 where "s4 = (if has_exponent then tl s3 else s3)"
  define has_sign where "has_sign = (has_exponent \<and> s4 \<noteq> [] \<and> (hd s4 = CHR ''+'' \<or> hd s4 = CHR ''-''))"
  define s5 where "s5 = (if has_sign then tl s4 else s4)"
  define exponent where "exponent = (if has_exponent then takeWhile is_digit s5 else [])"
  define s6 where "s6 = (if has_exponent then dropWhile is_digit s5 else s3)"
  note defs = negative_def s1_def whole_def s2_def has_fraction_def fraction_def s3_def
    has_exponent_def s4_def has_sign_def s5_def exponent_def s6_def
  have nt: "number_token s =
     (if whole = [] \<or> (1 < length whole \<and> hd whole = CHR ''0'') then None
      else if has_fraction \<and> fraction = [] then None
      else if has_exponent \<and> exponent = [] then None
      else Some (number_value negative whole fraction (has_sign \<and> hd s4 = CHR ''-'') exponent, s6))"
    by (simp only: number_token_def Let_def defs)
  from assms have w: "whole \<noteq> []" and f: "has_fraction \<longrightarrow> fraction \<noteq> []"
    and e: "has_exponent \<longrightarrow> exponent \<noteq> []" and r: "r = s6"
    unfolding nt by (auto split: if_splits)
  have c12: "consumes s1 s2 is_digit"
    using w unfolding whole_def s2_def by (rule consumes_digits)
  have c13: "consumes s1 s3 is_digit"
  proof (cases has_fraction)
    case True
    then have "s2 = CHR ''.'' # tl s2" unfolding has_fraction_def by (cases s2) auto
    moreover have "consumes (tl s2) s3 is_digit"
      using True f unfolding fraction_def s3_def by (simp add: consumes_digits)
    ultimately have "consumes s2 s3 is_digit" by (metis consumes_Cons)
    with c12 show ?thesis by (rule consumes_trans)
  next
    case False
    with c12 show ?thesis by (simp add: s3_def)
  qed
  have c16: "consumes s1 s6 is_digit"
  proof (cases has_exponent)
    case True
    then have 3: "s3 = hd s3 # s4" unfolding has_exponent_def s4_def by (cases s3) auto
    have 4: "\<exists>p. s4 = p @ s5" unfolding s5_def by (cases s4) auto
    have "consumes s5 s6 is_digit"
      using True e unfolding exponent_def s6_def by (simp add: consumes_digits)
    with 4 have "consumes s4 s6 is_digit" by (auto intro: consumes_prefix)
    with 3 have "consumes s3 s6 is_digit" by (metis consumes_Cons)
    with c13 show ?thesis by (rule consumes_trans)
  next
    case False
    with c13 show ?thesis by (simp add: s6_def)
  qed
  have "\<exists>p. s = p @ s1" unfolding s1_def by (cases s) auto
  with c16 r show ?thesis by (auto intro: consumes_prefix)
qed


lemma value_last_closers:
  "value_last (CHR ''}'')" "value_last (CHR '']'')" "value_last (CHR 0x22)"
  "value_last (CHR ''e'')" "value_last (CHR ''l'')" "is_digit c \<Longrightarrow> value_last c"
  by (auto simp: value_last_def is_digit_def)

lemma consumes_after_ws:
  "dropWhile json_ws s = d # r' \<Longrightarrow> consumes r' r Q \<Longrightarrow> consumes s r Q"
  by (metis consumes_Cons consumes_skip)

lemma consumes_closer_after_ws:
  "dropWhile json_ws s = d # r \<Longrightarrow> Q d \<Longrightarrow> consumes s r Q"
  by (metis consumes_one consumes_skip)

lemma parse_consumes:
  "(\<forall>s v r. parse_value n s = Some (v, r) \<longrightarrow> consumes s r value_last) \<and>
   (\<forall>acc s v r. parse_elements n acc s = Some (v, r) \<longrightarrow> consumes s r (\<lambda>c. c = CHR '']'')) \<and>
   (\<forall>acc s v r. parse_members n acc s = Some (v, r) \<longrightarrow> consumes s r (\<lambda>c. c = CHR ''}''))"
proof (induction n)
  case 0
  show ?case by simp
next
  case (Suc n)
  then have ihv: "\<And>s v r. parse_value n s = Some (v, r) \<Longrightarrow> consumes s r value_last"
    and ihe: "\<And>acc s v r. parse_elements n acc s = Some (v, r) \<Longrightarrow> consumes s r (\<lambda>c. c = CHR '']'')"
    and ihm: "\<And>acc s v r. parse_members n acc s = Some (v, r) \<Longrightarrow> consumes s r (\<lambda>c. c = CHR ''}'')"
    by blast+
  have v: "consumes s r value_last" if p: "parse_value (Suc n) s = Some (v, r)" for s v r
  proof (cases s)
    case Nil
    with p show ?thesis by simp
  next
    case (Cons c cs)
    note s = this
    consider (obj) "c = CHR ''{''" | (arr) "c \<noteq> CHR ''{''" "c = CHR ''[''"
      | (str) "c \<noteq> CHR ''{''" "c \<noteq> CHR ''[''" "c = CHR 0x22"
      | (num) "c \<noteq> CHR ''{''" "c \<noteq> CHR ''[''" "c \<noteq> CHR 0x22" "c = CHR ''-'' \<or> is_digit c"
      | (lit) "c \<noteq> CHR ''{''" "c \<noteq> CHR ''[''" "c \<noteq> CHR 0x22" "\<not> (c = CHR ''-'' \<or> is_digit c)"
      by blast
    then show ?thesis
    proof cases
      case obj
      with p s obtain d r0 where dw: "dropWhile json_ws cs = d # r0"
        and alt: "(d = CHR ''}'' \<and> r = r0) \<or> (d \<noteq> CHR ''}'' \<and> parse_members n [] (d # r0) = Some (v, r))"
        by (auto split: list.splits if_splits)
      from alt have "consumes cs r (\<lambda>c. c = CHR ''}'')"
      proof
        assume "d = CHR ''}'' \<and> r = r0"
        with dw show ?thesis by (auto intro: consumes_closer_after_ws)
      next
        assume "d \<noteq> CHR ''}'' \<and> parse_members n [] (d # r0) = Some (v, r)"
        then have "parse_members n [] (d # r0) = Some (v, r)" by simp
        then have "consumes (d # r0) r (\<lambda>c. c = CHR ''}'')" by (rule ihm)
        with dw have "consumes (dropWhile json_ws cs) r (\<lambda>c. c = CHR ''}'')" by simp
        then show ?thesis by (rule consumes_skip)
      qed
      then have "consumes s r (\<lambda>c. c = CHR ''}'')" unfolding s by (rule consumes_Cons)
      then show ?thesis by (rule consumes_weaken) (simp add: value_last_closers)
    next
      case arr
      with p s obtain d r0 where dw: "dropWhile json_ws cs = d # r0"
        and alt: "(d = CHR '']'' \<and> r = r0) \<or> (d \<noteq> CHR '']'' \<and> parse_elements n [] (d # r0) = Some (v, r))"
        by (auto split: list.splits if_splits)
      from alt have "consumes cs r (\<lambda>c. c = CHR '']'')"
      proof
        assume "d = CHR '']'' \<and> r = r0"
        with dw show ?thesis by (auto intro: consumes_closer_after_ws)
      next
        assume "d \<noteq> CHR '']'' \<and> parse_elements n [] (d # r0) = Some (v, r)"
        then have "parse_elements n [] (d # r0) = Some (v, r)" by simp
        then have "consumes (d # r0) r (\<lambda>c. c = CHR '']'')" by (rule ihe)
        with dw have "consumes (dropWhile json_ws cs) r (\<lambda>c. c = CHR '']'')" by simp
        then show ?thesis by (rule consumes_skip)
      qed
      then have "consumes s r (\<lambda>c. c = CHR '']'')" unfolding s by (rule consumes_Cons)
      then show ?thesis by (rule consumes_weaken) (simp add: value_last_closers)
    next
      case str
      with p s obtain str' where "string_body cs = Some (str', r)" by auto
      then have "consumes cs r (\<lambda>c. c = CHR 0x22)" by (rule string_body_consumes)
      then have "consumes s r (\<lambda>c. c = CHR 0x22)" unfolding s by (rule consumes_Cons)
      then show ?thesis by (rule consumes_weaken) (simp add: value_last_closers)
    next
      case num
      with p s obtain x where "number_token s = Some (x, r)" by auto
      then have "consumes s r is_digit" by (rule number_token_consumes)
      then show ?thesis by (rule consumes_weaken) (simp add: value_last_closers)
    next
      case lit
      with p s have "literal_token s = Some (v, r)" by auto
      then have "consumes s r (\<lambda>c. c = CHR ''e'' \<or> c = CHR ''l'')"
        by (rule literal_token_consumes)
      then show ?thesis by (rule consumes_weaken) (auto simp: value_last_closers)
    qed
  qed
  have e: "consumes s r (\<lambda>c. c = CHR '']'')" if p: "parse_elements (Suc n) acc s = Some (v, r)"
    for acc s v r
  proof -
    from p obtain v1 r1 d r' where pv: "parse_value n s = Some (v1, r1)"
      and dw: "dropWhile json_ws r1 = d # r'"
      and alt: "(d = CHR '','' \<and> parse_elements n (acc @ [v1]) (dropWhile json_ws r') = Some (v, r)) \<or>
                (d = CHR '']'' \<and> r = r')"
      by (auto split: option.splits list.splits if_splits)
    from alt have "consumes r1 r (\<lambda>c. c = CHR '']'')"
    proof
      assume "d = CHR '','' \<and> parse_elements n (acc @ [v1]) (dropWhile json_ws r') = Some (v, r)"
      then have "consumes (dropWhile json_ws r') r (\<lambda>c. c = CHR '']'')" using ihe by blast
      then have "consumes r' r (\<lambda>c. c = CHR '']'')" by (rule consumes_skip)
      with dw show ?thesis by (rule consumes_after_ws)
    next
      assume "d = CHR '']'' \<and> r = r'"
      with dw show ?thesis by (auto intro: consumes_closer_after_ws)
    qed
    with ihv[OF pv] show ?thesis by (rule consumes_trans)
  qed
  have m: "consumes s r (\<lambda>c. c = CHR ''}'')" if p: "parse_members (Suc n) acc s = Some (v, r)"
    for acc s v r
  proof (cases s)
    case Nil
    with p show ?thesis by simp
  next
    case (Cons q cs)
    note s = this
    from p s obtain k r0 d r1 v1 r2 d' r3 where sb: "string_body cs = Some (k, r0)"
      and dw0: "dropWhile json_ws r0 = d # r1"
      and pv: "parse_value n (dropWhile json_ws r1) = Some (v1, r2)"
      and dw2: "dropWhile json_ws r2 = d' # r3"
      and alt: "(d' = CHR '','' \<and> parse_members n (set_member k v1 acc) (dropWhile json_ws r3) = Some (v, r)) \<or>
                (d' = CHR ''}'' \<and> r = r3)"
      by (auto split: option.splits list.splits if_splits)
    from alt have "consumes r2 r (\<lambda>c. c = CHR ''}'')"
    proof
      assume "d' = CHR '','' \<and> parse_members n (set_member k v1 acc) (dropWhile json_ws r3) = Some (v, r)"
      then have "consumes (dropWhile json_ws r3) r (\<lambda>c. c = CHR ''}'')" using ihm by blast
      then have "consumes r3 r (\<lambda>c. c = CHR ''}'')" by (rule consumes_skip)
      with dw2 show ?thesis by (rule consumes_after_ws)
    next
      assume "d' = CHR ''}'' \<and> r = r3"
      with dw2 show ?thesis by (auto intro: consumes_closer_after_ws)
    qed
    with ihv[OF pv] have "consumes (dropWhile json_ws r1) r (\<lambda>c. c = CHR ''}'')"
      by (rule consumes_trans)
    then have "consumes r1 r (\<lambda>c. c = CHR ''}'')" by (rule consumes_skip)
    with dw0 have "consumes r0 r (\<lambda>c. c = CHR ''}'')" by (rule consumes_after_ws)
    with string_body_consumes[OF sb] have "consumes cs r (\<lambda>c. c = CHR ''}'')"
      by (rule consumes_trans)
    then show ?thesis unfolding s by (rule consumes_Cons)
  qed
  from v e m show ?case by blast
qed

lemma parse_value_first:
  "parse_value n s = Some (v, r) \<Longrightarrow> s \<noteq> [] \<and> value_first (hd s)"
proof (cases n)
  case 0
  then show "parse_value n s = Some (v, r) \<Longrightarrow> ?thesis" by simp
next
  case (Suc k)
  assume p: "parse_value n s = Some (v, r)"
  show ?thesis
  proof (cases s)
    case Nil
    with p Suc show ?thesis by simp
  next
    case (Cons c cs)
    have "value_first c"
    proof (rule ccontr)
      assume nf: "\<not> value_first c"
      then have "c \<noteq> CHR ''{''" "c \<noteq> CHR ''[''" "c \<noteq> CHR 0x22" "c \<noteq> CHR ''-''" "\<not> is_digit c"
        "c \<noteq> CHR ''t''" "c \<noteq> CHR ''f''" "c \<noteq> CHR ''n''"
        by (auto simp: value_first_def is_digit_def)
      with p Suc Cons show False
        by (simp add: literal_token_def startsWith_def)
    qed
    with Cons show ?thesis by simp
  qed
qed

lemma json_parse_shape: "json_text_shape json_parse"
  unfolding json_text_shape_def
proof (intro allI impI)
  fix s
  assume "json_parse s \<noteq> None"
  then obtain v where p: "parse_value (Suc (length (json_trim s))) (json_trim s) = Some (v, [])"
    by (auto simp: json_parse_def Let_def split: option.splits list.splits prod.splits)
  then have f: "json_trim s \<noteq> [] \<and> value_first (hd (json_trim s))"
    by (rule parse_value_first)
  from p have "consumes (json_trim s) [] value_last" using parse_consumes by blast
  then have "value_last (last (json_trim s))" by (auto simp: consumes_def)
  with f show "json_trim s \<noteq> [] \<and> value_first (hd (json_trim s)) \<and> value_last (last (json_trim s))"
    by simp
qed

lemma coffee_json_spaced: "json_parse ('' '' @ coffee_text @ [CHR 0x0A]) = Some coffee_payload"
  by (simp add: json_parse_def json_trim_def json_ws_def coffee_text_def coffee_payload_def
      coffee_item_def is_control_def is_digit_def literal_token_def startsWith_def single_escape_def)

theorem fenced_answer_parses_alike_witness:
  "ignores_json_ws (JSON_parse (valid_then coffee_text)) \<and>
   json_text_shape (JSON_parse (valid_then coffee_text)) \<and>
   JSON_parse (valid_then coffee_text) ('' '' @ coffee_text @ [CHR 0x0A]) = Some coffee_payload \<and>
   parse_response (valid_then coffee_text) (fenced_json ('' '' @ coffee_text @ [CHR 0x0A]))
     = Returns coffee_payload \<and>
   parse_response (valid_then coffee_text) (fenced ('' '' @ coffee_text @ [CHR 0x0A]))
     = Returns coffee_payload \<and>
   parse_response (valid_then coffee_text) ('' '' @ coffee_text @ [CHR 0x0A])
     = Returns coffee_payload"
proof -
  let ?e = "valid_then coffee_text"
  have p: "JSON_parse ?e = json_parse"
    by (simp add: valid_then_def scripted_env_def)
  have 1: "ignores_json_ws (JSON_parse ?e)" by (simp add: p json_parse_ignores_ws)
  have 2: "json_text_shape (JSON_parse ?e)" by (simp add: p json_parse_shape)
  have 3: "JSON_parse ?e ('' '' @ coffee_text @ [CHR 0x0A]) = Some coffee_payload"
    using coffee_json_spaced by (simp only: p)
  show ?thesis
    using 1 2 3 fenced_answer_parses_alike[OF 1 2 3] by simp
qed

section \<open>Currency formatting: the control flow\<close>

text \<open>
  When the fallback formatter for \<open>en-US\<close> and USD can be constructed,
  \<open>formatCurrency\<close> returns: the text \<open>N/A\<close> for a coerced amount that is not a number,
  and otherwise what the formatter for the currency's locale prints with two fraction
  digits as both bounds, or what the fallback prints when the constructor rejects the
  code. What the printed text looks like is a matter of \<open>Intl.NumberFormat\<close>.
\<close>

lemma formatCurrency_flow:
  assumes "NumberFormat P ''en-US'' (CurrencyStyle ''USD'' 2 2) = Returns usd"
  shows "formatCurrency P amt code =
     (let currencyCode = (case code of None \<Rightarrow> ''USD'' | Some c \<Rightarrow> c);
          numAmount = (case amt of StringAmount s \<Rightarrow> parseFloat P s | NumberAmount n \<Rightarrow> n)
      in Returns
           (if isNaN P numAmount then ''N/A''
            else case NumberFormat P (currency_locale P currencyCode)
                        (CurrencyStyle (toUpperCase P currencyCode) 2 2) of
                   Returns format \<Rightarrow> format numAmount
                 | Throws err \<Rightarrow> usd numAmount))"
  using assms by (simp add: formatCurrency_def obind_def Let_def split: outcome.splits)
section \<open>Currency formatting: the printed text\<close>

lemma digit_char_is_digit: "is_digit (digit_char n)"
  unfolding digit_char_def is_digit_def by (rule nth_mem) simp

lemma decimal_digits_last:
  "decimal_digits n \<noteq> [] \<and> last (decimal_digits n) = digit_char n"
  by (subst decimal_digits.simps, subst decimal_digits.simps) simp

lemma group3_hd: "ds \<noteq> [] \<Longrightarrow> group3 ds \<noteq> [] \<and> hd (group3 ds) = hd ds"
  by (cases ds rule: group3.cases) simp_all

lemma fraction_digits_two:
  "fraction_digits 2 m = [digit_char (m div 10), digit_char m]"
  by (simp add: numeral_2_eq_2)

lemma number_text_shape:
  "\<exists>c1 c2 d0 pre.
     rev (number_text 2 2 q) = digit_char c2 # digit_char c1 # CHR ''.'' # d0 # pre \<and> is_digit d0"
proof -
  define scaled where "scaled = nat \<lfloor>\<bar>q\<bar> * 10 ^ 2 + 1 / 2\<rfloor>"
  define ds where "ds = rev (decimal_digits (scaled div 10 ^ 2))"
  have ne: "ds \<noteq> []" and h: "hd ds = digit_char (scaled div 10 ^ 2)"
    using decimal_digits_last[of "scaled div 10 ^ 2"] by (simp_all add: ds_def hd_rev)
  from group3_hd[OF ne] obtain pre where g: "group3 ds = hd ds # pre"
    by (cases "group3 ds") auto
  have "number_text 2 2 q =
      rev (group3 ds) @ ''.'' @ [digit_char (scaled mod 10 ^ 2 div 10), digit_char (scaled mod 10 ^ 2)]"
    unfolding number_text_def Let_def scaled_def[symmetric] ds_def[symmetric] fraction_digits_two
    by simp
  then have "rev (number_text 2 2 q) =
      digit_char (scaled mod 10 ^ 2) # digit_char (scaled mod 10 ^ 2 div 10) # CHR ''.'' # hd ds # pre"
    by (simp add: g)
  then show ?thesis using h digit_char_is_digit by metis
qed

lemma finite_two_fraction_digits:
  "two_fraction_digits (format_en_US code 2 2 (Finite q))"
proof -
  obtain c1 c2 d0 pre where
    r: "rev (number_text 2 2 q) = digit_char c2 # digit_char c1 # CHR ''.'' # d0 # pre"
    and d: "is_digit d0"
    using number_text_shape by blast
  have "two_fraction_digits (((if q < 0 then ''-'' else []) @ currency_sign code) @ number_text 2 2 q)"
    unfolding two_fraction_digits_def
    by (simp add: r digit_char_is_digit d)
  then show ?thesis by (simp add: format_en_US_def)
qed

lemma reference_prints_two_digits: "prints_two_digits reference_intl (Finite q)"
  unfolding prints_two_digits_def
  by (auto simp: reference_intl_def NumberFormat_en_US_def finite_two_fraction_digits
      split: if_splits)

lemma canonicalize_USD:
  "canonicalize CHR ''U'' = CHR ''U''" "canonicalize CHR ''S'' = CHR ''S''"
  "canonicalize CHR ''D'' = CHR ''D''"
  by (simp_all add: canonicalize_def case_pairs_def)

lemma reference_upper_USD: "toUpperCase reference_intl ''USD'' = ''USD''"
  by (simp add: reference_intl_def canonicalize_USD)

lemma reference_locale_USD: "currency_locale reference_intl ''USD'' = ''en-US''"
proof -
  have "map_of CURRENCY_LOCALE_MAP ''USD'' = Some ''en-US''"
    by (simp add: CURRENCY_LOCALE_MAP_def)
  then show ?thesis by (simp only: currency_locale_def reference_upper_USD) simp
qed

lemma reference_usd:
  "NumberFormat reference_intl ''en-US'' (CurrencyStyle ''USD'' 2 2) = Returns (format_en_US ''USD'' 2 2)"
  by (simp add: reference_intl_def NumberFormat_en_US_def well_formed_code_def ascii_letter_def
      canonicalize_USD)

text \<open>
  C6, as the code has it. When the fallback formatter for \<open>en-US\<close> and USD can be
  constructed, \<open>formatCurrency\<close> returns a text and does not throw, for every amount and
  every currency code: the text \<open>N/A\<close> for a coerced amount that is not a number, and
  otherwise what the formatter for the currency's locale prints with both fraction bounds
  2, or what the fallback prints when the constructor rejects the code. For an amount
  the platform's formatters print with two fraction digits, the text returned has exactly
  two fraction digits, and then it is \<open>N/A\<close> only for an amount that is not a number.
\<close>

theorem formatCurrency_contract:
  assumes "NumberFormat P ''en-US'' (CurrencyStyle ''USD'' 2 2) = Returns usd"
  shows "let currencyCode = (case code of None \<Rightarrow> ''USD'' | Some c \<Rightarrow> c);
             numAmount = (case amt of StringAmount s \<Rightarrow> parseFloat P s | NumberAmount n \<Rightarrow> n)
         in \<exists>s. formatCurrency P amt code = Returns s \<and>
              (isNaN P numAmount \<longrightarrow> s = ''N/A'') \<and>
              (\<not> isNaN P numAmount \<longrightarrow>
                 s = (case NumberFormat P (currency_locale P currencyCode)
                             (CurrencyStyle (toUpperCase P currencyCode) 2 2) of
                        Returns format \<Rightarrow> format numAmount
                      | Throws err \<Rightarrow> usd numAmount)) \<and>
              (\<not> isNaN P numAmount \<and> prints_two_digits P numAmount \<longrightarrow>
                 two_fraction_digits s \<and> s \<noteq> ''N/A'') \<and>
              (prints_two_digits P numAmount \<longrightarrow> (s = ''N/A'') = isNaN P numAmount)"
proof -
  define currencyCode where "currencyCode = (case code of None \<Rightarrow> ''USD'' | Some c \<Rightarrow> c)"
  define numAmount where
    "numAmount = (case amt of StringAmount s \<Rightarrow> parseFloat P s | NumberAmount n \<Rightarrow> n)"
  define s where
    "s = (if isNaN P numAmount then ''N/A''
          else case NumberFormat P (currency_locale P currencyCode)
                      (CurrencyStyle (toUpperCase P currencyCode) 2 2) of
                 Returns format \<Rightarrow> format numAmount
               | Throws err \<Rightarrow> usd numAmount)"
  have run: "formatCurrency P amt code = Returns s"
    using formatCurrency_flow[OF assms, of amt code]
    unfolding Let_def s_def currencyCode_def numAmount_def .
  have na: "\<not> two_fraction_digits ''N/A''"
    by (simp add: two_fraction_digits_def is_digit_def)
  have two: "two_fraction_digits s" if "\<not> isNaN P numAmount" "prints_two_digits P numAmount"
  proof (cases "NumberFormat P (currency_locale P currencyCode)
                  (CurrencyStyle (toUpperCase P currencyCode) 2 2)")
    case (Returns format)
    then have "two_fraction_digits (format numAmount)"
      using that(2) unfolding prints_two_digits_def by blast
    then show ?thesis using that(1) Returns by (simp add: s_def)
  next
    case (Throws err)
    have "two_fraction_digits (usd numAmount)"
      using that(2) assms unfolding prints_two_digits_def by blast
    then show ?thesis using that(1) Throws by (simp add: s_def)
  qed
  have "(isNaN P numAmount \<longrightarrow> s = ''N/A'') \<and>
        (\<not> isNaN P numAmount \<longrightarrow>
           s = (case NumberFormat P (currency_locale P currencyCode)
                       (CurrencyStyle (toUpperCase P currencyCode) 2 2) of
                  Returns format \<Rightarrow> format numAmount
                | Throws err \<Rightarrow> usd numAmount)) \<and>
        (\<not> isNaN P numAmount \<and> prints_two_digits P numAmount \<longrightarrow>
           two_fraction_digits s \<and> s \<noteq> ''N/A'') \<and>
        (prints_two_digits P numAmount \<longrightarrow> (s = ''N/A'') = isNaN P numAmount)"
    using two na by (auto simp: s_def)
  with run show ?thesis
    unfolding Let_def currencyCode_def[symmetric] numAmount_def[symmetric] by blast
qed

lemma parseFloat_six: "parseFloat_text ''6.00'' = Finite 6"
  by (simp add: parseFloat_text_def Let_def js_ws_def is_digit_def startsWith_def
      number_value_def digit_value_def)

lemma number_text_six: "number_text 2 2 6 = ''6.00''"
proof -
  have "\<lfloor>(1201::rat) / 2\<rfloor> = 600" by (rule floor_unique) simp_all
  then have scaled: "nat \<lfloor>\<bar>6::rat\<bar> * 10 ^ 2 + 1 / 2\<rfloor> = 600" by simp
  have whole: "decimal_digits 6 = ''6''"
    by (subst decimal_digits.simps) (simp add: digit_char_def)
  show ?thesis
    unfolding number_text_def Let_def scaled fraction_digits_two
    by (simp add: whole digit_char_def)
qed

lemma format_six: "format_en_US ''USD'' 2 2 (Finite 6) = ''$6.00''"
  by (simp add: format_en_US_def currency_sign_def number_text_six)

lemma formatCurrency_six:
  "formatCurrency reference_intl (StringAmount ''6.00'') (Some ''USD'') = Returns ''$6.00''"
proof -
  have p: "parseFloat reference_intl ''6.00'' = Finite 6"
    by (simp add: reference_intl_def parseFloat_six)
  have n: "\<not> isNaN reference_intl (Finite 6)" by (simp add: reference_intl_def)
  show ?thesis
    using formatCurrency_flow[OF reference_usd, of "StringAmount ''6.00''" "Some ''USD''"]
    by (simp only: Let_def option.case amount.case p n if_False reference_locale_USD
        reference_upper_USD reference_usd outcome.case format_six)
qed

text \<open>
  Two more runs on this platform: a code the constructor rejects is printed as USD, and
  a text that is no number gives \<open>N/A\<close>.
\<close>

lemma formatCurrency_fallback_example:
  "formatCurrency reference_intl (StringAmount ''6.00'') (Some ''us'') = Returns ''$6.00''"
proof -
  have p: "parseFloat reference_intl ''6.00'' = Finite 6"
    by (simp add: reference_intl_def parseFloat_six)
  have n: "\<not> isNaN reference_intl (Finite 6)" by (simp add: reference_intl_def)
  have up: "toUpperCase reference_intl ''us'' = ''US''"
    by (simp add: reference_intl_def canonicalize_def case_pairs_def)
  have "map_of CURRENCY_LOCALE_MAP ''US'' = None" by (simp add: CURRENCY_LOCALE_MAP_def)
  then have loc: "currency_locale reference_intl ''us'' = ''en-US''"
    by (simp only: currency_locale_def up) simp
  have rejected: "NumberFormat reference_intl ''en-US'' (CurrencyStyle ''US'' 2 2)
      = Throws (ErrorObj ''Invalid currency code : US'')"
    by (simp add: reference_intl_def NumberFormat_en_US_def well_formed_code_def)
  show ?thesis
    using formatCurrency_flow[OF reference_usd, of "StringAmount ''6.00''" "Some ''us''"]
    by (simp only: Let_def option.case amount.case p n if_False loc up rejected outcome.case
        format_six)
qed

lemma formatCurrency_not_a_number_example:
  "formatCurrency reference_intl (StringAmount ''six'') (Some ''USD'') = Returns ''N/A''"
proof -
  have "parseFloat_text ''six'' = NaN"
    by (simp add: parseFloat_text_def Let_def js_ws_def is_digit_def startsWith_def)
  then have n: "isNaN reference_intl (parseFloat reference_intl ''six'')"
    by (simp add: reference_intl_def)
  show ?thesis
    using formatCurrency_flow[OF reference_usd, of "StringAmount ''six''" "Some ''USD''"]
    by (simp only: Let_def option.case amount.case n if_True)
qed

theorem formatCurrency_contract_witness:
  "NumberFormat reference_intl ''en-US'' (CurrencyStyle ''USD'' 2 2)
     = Returns (format_en_US ''USD'' 2 2) \<and>
   parseFloat reference_intl ''6.00'' = Finite 6 \<and>
   \<not> isNaN reference_intl (Finite 6) \<and>
   prints_two_digits reference_intl (Finite 6) \<and>
   formatCurrency reference_intl (StringAmount ''6.00'') (Some ''USD'') = Returns ''$6.00'' \<and>
   two_fraction_digits ''$6.00''"
proof -
  have p: "parseFloat reference_intl ''6.00'' = Finite 6"
    by (simp add: reference_intl_def parseFloat_six)
  have n: "\<not> isNaN reference_intl (Finite 6)" by (simp add: reference_intl_def)
  have "\<exists>s. formatCurrency reference_intl (StringAmount ''6.00'') (Some ''USD'') = Returns s \<and>
          two_fraction_digits s"
    using formatCurrency_contract[OF reference_usd, of "Some ''USD''" "StringAmount ''6.00''"]
      n reference_prints_two_digits[of 6]
    unfolding Let_def amount.case option.case p by blast
  then have "two_fraction_digits ''$6.00''" unfolding formatCurrency_six by simp
  with p n reference_usd reference_prints_two_digits formatCurrency_six show ?thesis by blast
qed

text \<open>
  An amount that is a number and has no digits to print: for \<open>Infinity\<close> the text
  returned is the dollar sign and the sign of infinity, with no fraction digit.
\<close>

theorem infinity_counterexample:
  "\<not> isNaN reference_intl PosInfinity \<and>
   formatCurrency reference_intl (NumberAmount PosInfinity) (Some ''USD'')
     = Returns [CHR ''$'', CHR 0xE2, CHR 0x88, CHR 0x9E] \<and>
   \<not> two_fraction_digits [CHR ''$'', CHR 0xE2, CHR 0x88, CHR 0x9E]"
proof -
  have n: "\<not> isNaN reference_intl PosInfinity" by (simp add: reference_intl_def)
  have i: "format_en_US ''USD'' 2 2 PosInfinity = [CHR ''$'', CHR 0xE2, CHR 0x88, CHR 0x9E]"
    by (simp add: format_en_US_def currency_sign_def infinity_sign_def)
  have f: "formatCurrency reference_intl (NumberAmount PosInfinity) (Some ''USD'')
     = Returns [CHR ''$'', CHR 0xE2, CHR 0x88, CHR 0x9E]"
    using formatCurrency_flow[OF reference_usd, of "NumberAmount PosInfinity" "Some ''USD''"]
    by (simp only: Let_def option.case amount.case n if_False reference_locale_USD
        reference_upper_USD reference_usd outcome.case i)
  have t: "\<not> two_fraction_digits [CHR ''$'', CHR 0xE2, CHR 0x88, CHR 0x9E]"
    by (simp add: two_fraction_digits_def is_digit_def)
  show ?thesis using n f t by blast
qed
end
